theory Spec2Isabelle
  imports Complex_Main "HOL-Library.Word" "HOL-Library.Log_Nat"
begin

section \<open>fish\_key\_reader: the byte-stream analysis engine\<close>

text \<open>
  A shallow embedding of \<^verbatim>\<open>src/fish_key_reader.cpp\<close>. An \<^verbatim>\<open>unsigned char\<close> is an
  8-bit word. The function-local static arrays of \<^verbatim>\<open>should_exit\<close> and \<^verbatim>\<open>key_name\<close>
  are lists that each function takes and returns updated; the C assignments
  \<^verbatim>\<open>a[i] = a[j]\<close> are list updates, in the order of the source.
\<close>

type_synonym byte = "8 word"

subsection \<open>Exit-phrase detector: \<^verbatim>\<open>should_exit\<close>\<close>

definition bytes_of :: "string \<Rightarrow> byte list" where
  "bytes_of s = map of_char s"

text \<open>\<^verbatim>\<open>memcmp(a, s, n) == 0\<close>: the first \<open>n\<close> bytes of both are equal.\<close>

definition memcmp_eq :: "byte list \<Rightarrow> byte list \<Rightarrow> nat \<Rightarrow> bool" where
  "memcmp_eq a s n = (take n a = take n s)"

text \<open>\<^verbatim>\<open>static unsigned char recent_chars[4] = {0};\<close>\<close>

definition exit_chars_init :: "byte list" where
  "exit_chars_init = [0, 0, 0, 0]"

definition should_exit :: "byte list \<Rightarrow> byte \<Rightarrow> byte list \<times> bool" where
  "should_exit recent_chars c =
     (let r = recent_chars[0 := recent_chars ! 1];
          r = r[1 := r ! 2];
          r = r[2 := r ! 3];
          r = r[3 := c]
      in (r, memcmp_eq r (bytes_of ''exit'') 4 \<or> memcmp_eq r (bytes_of ''quit'') 4))"

text \<open>
  Pushing a sequence of bytes, one call of \<^verbatim>\<open>should_exit\<close> per byte: the list of the
  values returned, in order, together with the final window.
\<close>

fun should_exit_run :: "byte list \<Rightarrow> byte list \<Rightarrow> byte list \<times> bool list" where
  "should_exit_run w [] = (w, [])"
| "should_exit_run w (c # cs) =
     (let (w', b) = should_exit w c;
          (w'', bs) = should_exit_run w' cs
      in (w'', b # bs))"

subsection \<open>The conversions of \<^verbatim>\<open>printf\<close> that the program uses\<close>

text \<open>
  Digits of a natural number in base \<open>b\<close>, most significant first; \<open>up\<close> selects the
  capital hexadecimal digits of \<^verbatim>\<open>%X\<close>.
\<close>

definition digit_char :: "bool \<Rightarrow> nat \<Rightarrow> char" where
  "digit_char up d = (if up then ''0123456789ABCDEF'' else ''0123456789abcdef'') ! d"

function digits :: "bool \<Rightarrow> nat \<Rightarrow> nat \<Rightarrow> string" where
  "digits up b n =
     (if b < 2 \<or> n < b then [digit_char up n]
      else digits up b (n div b) @ [digit_char up (n mod b)])"
  by pat_completeness auto
termination
  by (relation "measure (\<lambda>(up, b, n). n)") auto

declare digits.simps [simp del]

definition pad_left :: "nat \<Rightarrow> char \<Rightarrow> string \<Rightarrow> string" where
  "pad_left w ch s = replicate (w - length s) ch @ s"

text \<open>\<^verbatim>\<open>%3u\<close>, \<^verbatim>\<open>%03o\<close>, \<^verbatim>\<open>%02X\<close> of an unsigned value.\<close>

definition fmt_3u :: "nat \<Rightarrow> string" where
  "fmt_3u n = pad_left 3 CHR '' '' (digits False 10 n)"

definition fmt_03o :: "nat \<Rightarrow> string" where
  "fmt_03o n = pad_left 3 CHR ''0'' (digits False 8 n)"

definition fmt_02X :: "nat \<Rightarrow> string" where
  "fmt_02X n = pad_left 2 CHR ''0'' (digits True 16 n)"

text \<open>
  \<^verbatim>\<open>%lld\<close> (also \<^verbatim>\<open>%d\<close>), \<^verbatim>\<open>%3lld\<close> and \<^verbatim>\<open>%03lld\<close> of a signed value: the sign comes
  first, blanks pad before the sign and zeros after it. \<^verbatim>\<open>%llx\<close> prints the 64-bit
  two's complement pattern.
\<close>

definition fmt_lld :: "int \<Rightarrow> string" where
  "fmt_lld n = (if n < 0 then CHR ''-'' # digits False 10 (nat (- n))
                else digits False 10 (nat n))"

definition fmt_3lld :: "int \<Rightarrow> string" where
  "fmt_3lld n = pad_left 3 CHR '' '' (fmt_lld n)"

definition fmt_03lld :: "int \<Rightarrow> string" where
  "fmt_03lld n = (if n < 0 then CHR ''-'' # pad_left 2 CHR ''0'' (digits False 10 (nat (- n)))
                  else pad_left 3 CHR ''0'' (digits False 10 (nat n)))"

definition fmt_llx :: "int \<Rightarrow> string" where
  "fmt_llx n = digits False 16 (nat (n mod 2 ^ 64))"

text \<open>The division and remainder of C on signed integers truncate towards zero.\<close>

definition c_div :: "int \<Rightarrow> int \<Rightarrow> int" where
  "c_div a b = (if (a < 0) = (b < 0) then \<bar>a\<bar> div \<bar>b\<bar> else - (\<bar>a\<bar> div \<bar>b\<bar>))"

definition c_mod :: "int \<Rightarrow> int \<Rightarrow> int" where
  "c_mod a b = a - b * c_div a b"

subsection \<open>Byte classifier: \<^verbatim>\<open>output_info_about_char\<close>\<close>

text \<open>
  The table \<^verbatim>\<open>ctrl_symbolic_names[32]\<close>, \<^verbatim>\<open>NULL\<close> as \<open>None\<close>. The C literal
  \<^verbatim>\<open>"\\a"\<close> is the two characters backslash and \<open>a\<close>.
\<close>

definition ctrl_symbolic_names :: "string option list" where
  "ctrl_symbolic_names =
     [None, None, None, None, None, None, None, Some [CHR 0x5C, CHR ''a''],
      Some [CHR 0x5C, CHR ''b''], Some [CHR 0x5C, CHR ''t''], Some [CHR 0x5C, CHR ''n''],
      Some [CHR 0x5C, CHR ''v''], Some [CHR 0x5C, CHR ''f''], Some [CHR 0x5C, CHR ''r''],
      None, None,
      None, None, None, None, None, None, None, None,
      None, None, None, Some [CHR 0x5C, CHR ''e''], None, None, None, None]"

text \<open>The text after \<^verbatim>\<open>char: \<close>, one branch of the source's chain each.\<close>

definition char_description :: "byte \<Rightarrow> string" where
  "char_description c =
     (if c < 32 then
        [CHR 0x5C, CHR ''c'', char_of (unat c + 64)] @
        (case ctrl_symbolic_names ! unat c of
           Some name \<Rightarrow> ''   (or '' @ name @ '')''
         | None \<Rightarrow> [])
      else if c = 32 then
        CHR 0x5C # fmt_03o (unat c) @ ''  (aka '' @ [CHR 0x22] @ ''space'' @ [CHR 0x22] @ '')''
      else if c = 0x7F then
        CHR 0x5C # fmt_03o (unat c) @ ''  (aka '' @ [CHR 0x22] @ ''del'' @ [CHR 0x22] @ '')''
      else if c \<ge> 128 then
        CHR 0x5C # fmt_03o (unat c) @ ''  (aka non-ASCII)''
      else [char_of (unat c)])"

definition output_info_about_char :: "byte \<Rightarrow> string" where
  "output_info_about_char c =
     ''dec: '' @ fmt_3u (unat c) @ ''  oct: '' @ fmt_03o (unat c) @
     ''  hex: '' @ fmt_02X (unat c) @ ''  char: '' @ char_description c @ [CHR 0x0A]"

subsection \<open>Sequence matcher: \<^verbatim>\<open>key_name\<close>\<close>

text \<open>
  \<^verbatim>\<open>input_terminfo_get_name\<close>, \<^verbatim>\<open>str2wcstring\<close> and \<^verbatim>\<open>wcs2string\<close> are declared in
  headers outside this file. The table is a parameter: a function from the bytes handed
  to \<^verbatim>\<open>str2wcstring\<close> to the name that \<^verbatim>\<open>input_terminfo_get_name\<close> finds, if any.
\<close>

type_synonym name_table = "byte list \<Rightarrow> string option"

text \<open>
  \<^verbatim>\<open>static char recent_chars[8] = {0};\<close> The array only stores the bytes and hands them
  on, so a \<^verbatim>\<open>char\<close> is the same 8-bit word, whatever its sign.
\<close>

definition key_chars_init :: "byte list" where
  "key_chars_init = [0, 0, 0, 0, 0, 0, 0, 0]"

definition key_name_shift :: "byte list \<Rightarrow> byte \<Rightarrow> byte list" where
  "key_name_shift recent_chars c =
     (let r = recent_chars[0 := recent_chars ! 1];
          r = r[1 := r ! 2];
          r = r[2 := r ! 3];
          r = r[3 := r ! 4];
          r = r[4 := r ! 5];
          r = r[5 := r ! 6];
          r = r[6 := r ! 7];
          r = r[7 := c]
      in r)"

text \<open>
  The loop \<^verbatim>\<open>for (int idx = 7; idx >= 0; idx--)\<close>. Each call of the table is an
  effect, so the loop returns the sequences it has asked for, in order, with its result.
\<close>

function key_name_loop :: "name_table \<Rightarrow> byte list \<Rightarrow> int \<Rightarrow> byte list list \<times> string option" where
  "key_name_loop tbl r idx =
     (if idx \<ge> 0 then
        (let seq = take (nat (8 - idx)) (drop (nat idx) r) in
         case tbl seq of
           Some out_name \<Rightarrow> ([seq], Some out_name)
         | None \<Rightarrow>
             (let (qs, res) = key_name_loop tbl r (idx - 1) in (seq # qs, res)))
      else ([], None))"
  by pat_completeness auto
termination
  by (relation "measure (\<lambda>(tbl, r, idx). nat (idx + 1))") auto

declare key_name_loop.simps [simp del]

definition key_name :: "name_table \<Rightarrow> byte list \<Rightarrow> byte \<Rightarrow> byte list \<times> byte list list \<times> string option" where
  "key_name tbl recent_chars c =
     (let r = key_name_shift recent_chars c;
          (qs, res) = key_name_loop tbl r 7
      in (r, qs, res))"

definition output_matching_key_name :: "name_table \<Rightarrow> byte list \<Rightarrow> byte \<Rightarrow> byte list \<times> string option" where
  "output_matching_key_name tbl recent_chars c =
     (let (r, qs, name) = key_name tbl recent_chars c
      in (r, case name of
               Some n \<Rightarrow> Some (''Sequence matches bind key name '' @ [CHR 0x22] @ n @ [CHR 0x22, CHR 0x0A])
             | None \<Rightarrow> None))"

text \<open>
  Feeding a sequence of bytes, one call of \<^verbatim>\<open>key_name\<close> per byte: the final window and,
  for each byte, the sequences asked for and the value returned.
\<close>

fun key_name_feed ::
  "name_table \<Rightarrow> byte list \<Rightarrow> byte list \<Rightarrow> byte list \<times> (byte list list \<times> string option) list" where
  "key_name_feed tbl w [] = (w, [])"
| "key_name_feed tbl w (c # cs) =
     (let (w', qs, res) = key_name tbl w c;
          (w'', rs) = key_name_feed tbl w' cs
      in (w'', (qs, res) # rs))"

subsection \<open>Timing tracker: \<^verbatim>\<open>output_elapsed_time\<close>\<close>

text \<open>
  A finite \<^verbatim>\<open>double\<close> is an integer mantissa and an exponent, of value
  \<open>mant * 2 ^ expo\<close>; a value of the machine has less than 53 bits of mantissa and an
  exponent from \<open>-1074\<close> to \<open>971\<close>. The arithmetic is that of IEEE 754 binary64 in its
  default mode: the exact result, an integer \<open>m\<close> times \<open>2 ^ k\<close>, is rounded to 53
  significant bits, to nearest and ties to even. The bounds of the exponent are left
  out of the rounding. This changes nothing here, where a result is only converted to
  \<^verbatim>\<open>long long\<close>: an overflow is far beyond the 64 bits either way, and an underflow is
  below 1 and converts to 0 either way.
\<close>

datatype double = Double (mant: int) (expo: int)


definition dval :: "double \<Rightarrow> real" where
  "dval d = of_int (mant d) * 2 powi expo d"

text \<open>\<open>a / 2 ^ s\<close> for \<open>a \<ge> 0\<close>, rounded to the nearest integer, a tie to the even one.\<close>

definition round_even :: "int \<Rightarrow> nat \<Rightarrow> int" where
  "round_even a s =
     (let q = a div 2 ^ s; r = a mod 2 ^ s
      in if 2 * r > 2 ^ s \<or> (2 * r = 2 ^ s \<and> odd q) then q + 1 else q)"

text \<open>The double nearest to \<open>m * 2 ^ k\<close>: the bits beyond the 53rd are rounded away.\<close>

definition fl :: "int \<Rightarrow> int \<Rightarrow> double" where
  "fl m k =
     (let s = nat (bitlen \<bar>m\<bar> - 53)
      in Double (sgn m * round_even \<bar>m\<bar> s) (k + int s))"

definition dsub :: "double \<Rightarrow> double \<Rightarrow> double" where
  "dsub a b =
     (let k = min (expo a) (expo b)
      in fl (mant a * 2 ^ nat (expo a - k) - mant b * 2 ^ nat (expo b - k)) k)"

definition dmul :: "double \<Rightarrow> double \<Rightarrow> double" where
  "dmul a b = fl (mant a * mant b) (expo a + expo b)"

text \<open>
  The conversion of a \<^verbatim>\<open>double\<close> to \<^verbatim>\<open>long long\<close> truncates towards zero. Out of the
  range of 64 bits C leaves it undefined; the conversion instruction of x86-64, which
  the compilers emit for it, gives the least value \<open>- 2 ^ 63\<close>.
\<close>

definition double_to_ll :: "double \<Rightarrow> int" where
  "double_to_ll d =
     (let t = (if expo d \<ge> 0 then mant d * 2 ^ nat (expo d)
               else sgn (mant d) * (\<bar>mant d\<bar> div 2 ^ nat (- expo d)))
      in if - (2 ^ 63) \<le> t \<and> t < 2 ^ 63 then t else - (2 ^ 63))"

text \<open>
  \<^verbatim>\<open>long long int delta_tstamp_us = 1000000 * (now - prev_tstamp);\<close> The \<^verbatim>\<open>int\<close>
  constant becomes the double of the same value.
\<close>

definition elapsed_us :: "double \<Rightarrow> double \<Rightarrow> int" where
  "elapsed_us now prev_tstamp = double_to_ll (dmul (Double 1000000 0) (dsub now prev_tstamp))"

text \<open>What the function prints, from \<^verbatim>\<open>delta_tstamp_us\<close> on.\<close>

definition elapsed_text :: "int \<Rightarrow> bool \<Rightarrow> string" where
  "elapsed_text delta_tstamp_us first_char_seen =
     (if delta_tstamp_us \<ge> 200000 \<and> first_char_seen then [CHR 0x0A] else []) @
     (if delta_tstamp_us \<ge> 1000000 then ''              ''
      else ''('' @ fmt_3lld (c_div delta_tstamp_us 1000) @ ''.'' @
           fmt_03lld (c_mod delta_tstamp_us 1000) @ '' ms)  '')"

text \<open>\<open>now\<close> is the value that \<^verbatim>\<open>timef()\<close> returns in this call.\<close>

definition output_elapsed_time :: "double \<Rightarrow> double \<Rightarrow> bool \<Rightarrow> string \<times> double" where
  "output_elapsed_time now prev_tstamp first_char_seen =
     (let delta_tstamp_us = elapsed_us now prev_tstamp
      in (elapsed_text delta_tstamp_us first_char_seen, now))"

subsection \<open>Signals: \<^verbatim>\<open>signal_handler\<close>\<close>

text \<open>
  What the file uses and does not define: the name table, \<^verbatim>\<open>sig2wcs\<close> and the signal
  numbers of \<^verbatim>\<open><sys/signal.h>\<close>. They are parameters of the model.
\<close>

record extern =
  input_terminfo_get_name :: name_table
  sig2wcs :: "int \<Rightarrow> string"
  SIGINT :: int
  SIGTERM :: int
  SIGABRT :: int
  SIGSEGV :: int

text \<open>The handler takes the global \<^verbatim>\<open>keep_running\<close> and returns the notice with the new flag.\<close>

definition signal_handler :: "extern \<Rightarrow> int \<Rightarrow> bool \<Rightarrow> string \<times> bool" where
  "signal_handler ext signo keep_running =
     ([CHR 0x0A] @ ''Signal #'' @ fmt_lld signo @ '' ('' @ sig2wcs ext signo @
        '') received'' @ [CHR 0x0A, CHR 0x0A],
      if signo = SIGINT ext \<or> signo = SIGTERM ext \<or> signo = SIGABRT ext \<or> signo = SIGSEGV ext
      then False else keep_running)"

subsection \<open>Session loop: \<^verbatim>\<open>process_input\<close>\<close>

text \<open>
  The state that outlives one call: the global flag and the static windows of
  \<^verbatim>\<open>should_exit\<close> and \<^verbatim>\<open>key_name\<close>.
\<close>

record statics =
  keep_running :: bool
  exit_recent :: "byte list"
  key_recent :: "byte list"

definition statics_init :: statics where
  "statics_init = \<lparr>keep_running = True, exit_recent = exit_chars_init, key_recent = key_chars_init\<rparr>"

text \<open>
  The session is driven by what the environment does. \<open>Read rd now\<close> is one call of
  \<^verbatim>\<open>input_common_readch\<close>: \<open>rd timed\<close> is the \<^verbatim>\<open>wchar_t\<close> it returns for the argument
  \<open>timed\<close>, and \<open>now\<close> the clock the call of \<^verbatim>\<open>timef()\<close> reads if the unit is processed.
  \<open>Signal signo\<close> is a signal delivered before the loop tests its condition.
  \<^verbatim>\<open>WEOF\<close> is \<^verbatim>\<open>(wint_t)-1\<close>, which a \<^verbatim>\<open>wchar_t\<close> equals when it is \<open>-1\<close>.
\<close>

datatype event = Read "bool \<Rightarrow> int" double | Signal int

definition WEOF :: int where
  "WEOF = - 1"

text \<open>Each piece of output carries the text printed, tagged by the statement that prints it.\<close>

datatype out =
    Prompt string
  | Elapsed string
  | CharInfo string
  | KeyName string
  | ExitNotice string
  | WideChar string
  | SignalNotice string

fun text_of :: "out \<Rightarrow> string" where
  "text_of (Prompt s) = s"
| "text_of (Elapsed s) = s"
| "text_of (CharInfo s) = s"
| "text_of (KeyName s) = s"
| "text_of (ExitNotice s) = s"
| "text_of (WideChar s) = s"
| "text_of (SignalNotice s) = s"

definition render :: "out list \<Rightarrow> string" where
  "render outs = concat (map text_of outs)"

text \<open>
  \<open>Returned\<close>: the function has returned. \<open>Awaiting\<close>: the events are used up while the
  loop still waits for input.
\<close>

datatype status = Returned | Awaiting

definition wide_char_text :: "int \<Rightarrow> string" where
  "wide_char_text wc =
     [CHR 0x0A] @ ''Unexpected wide character from input_common_readch(): '' @
     fmt_lld wc @ '' / 0x'' @ fmt_llx wc @ [CHR 0x0A]"

definition exit_text :: string where
  "exit_text = [CHR 0x0A] @ ''Exiting at your request.'' @ [CHR 0x0A]"

fun process_input_loop ::
  "extern \<Rightarrow> bool \<Rightarrow> bool \<Rightarrow> double \<Rightarrow> statics \<Rightarrow> event list \<Rightarrow> out list \<times> statics \<times> status" where
  "process_input_loop ext continuous_mode first_char_seen prev_tstamp st [] =
     ([], st, if keep_running st then Awaiting else Returned)"
| "process_input_loop ext continuous_mode first_char_seen prev_tstamp st (Signal signo # evs) =
     (let (notice, kr) = signal_handler ext signo (keep_running st);
          (outs, res) = process_input_loop ext continuous_mode first_char_seen prev_tstamp
                          (st\<lparr>keep_running := kr\<rparr>) evs
      in (SignalNotice notice # outs, res))"
| "process_input_loop ext continuous_mode first_char_seen prev_tstamp st (Read rd now # evs) =
     (if \<not> keep_running st then ([], st, Returned)
      else
        let wc = rd (first_char_seen \<and> \<not> continuous_mode) in
        if wc = WEOF then ([], st, Returned)
        else if wc > 255 then ([WideChar (wide_char_text wc)], st, Returned)
        else
          let c = (word_of_int wc :: byte);
              (elapsed, prev_tstamp') = output_elapsed_time now prev_tstamp first_char_seen;
              info = output_info_about_char c;
              (kr, name) = output_matching_key_name (input_terminfo_get_name ext) (key_recent st) c;
              (er, quit) = should_exit (exit_recent st) c;
              st' = st\<lparr>exit_recent := er, key_recent := kr\<rparr>;
              report = [Elapsed elapsed, CharInfo info] @
                       (case name of Some s \<Rightarrow> [KeyName s] | None \<Rightarrow> [])
          in if quit then (report @ [ExitNotice exit_text], st', Returned)
             else
               let (outs, res) = process_input_loop ext continuous_mode True prev_tstamp' st' evs
               in (report @ outs, res))"

definition process_input :: "extern \<Rightarrow> bool \<Rightarrow> statics \<Rightarrow> event list \<Rightarrow> out list \<times> statics \<times> status" where
  "process_input ext continuous_mode st evs =
     (let (outs, res) = process_input_loop ext continuous_mode False (Double 0 0) st evs
      in (Prompt (''Press a key'' @ [CHR 0x0A, CHR 0x0A]) # outs, res))"

subsection \<open>Reference notions used to state the properties\<close>

text \<open>The last four bytes of a sequence spell one of the two phrases.\<close>

definition ends_with_phrase :: "byte list \<Rightarrow> bool" where
  "ends_with_phrase xs =
     (drop (length xs - 4) xs = bytes_of ''exit'' \<or> drop (length xs - 4) xs = bytes_of ''quit'')"

text \<open>
  The aliases of the control codes as the specification lists them: BEL, BS, TAB, LF, VT,
  FF, CR and ESC.
\<close>

definition spec_alias :: "nat \<Rightarrow> string option" where
  "spec_alias n =
     (if n = 7 then Some [CHR 0x5C, CHR ''a'']
      else if n = 8 then Some [CHR 0x5C, CHR ''b'']
      else if n = 9 then Some [CHR 0x5C, CHR ''t'']
      else if n = 10 then Some [CHR 0x5C, CHR ''n'']
      else if n = 11 then Some [CHR 0x5C, CHR ''v'']
      else if n = 12 then Some [CHR 0x5C, CHR ''f'']
      else if n = 13 then Some [CHR 0x5C, CHR ''r'']
      else if n = 27 then Some [CHR 0x5C, CHR ''e'']
      else None)"

text \<open>The per-byte reports of a session, and its output without the lines of the matcher.\<close>

fun is_CharInfo :: "out \<Rightarrow> bool" where
  "is_CharInfo (CharInfo s) = True"
| "is_CharInfo _ = False"

fun is_KeyName :: "out \<Rightarrow> bool" where
  "is_KeyName (KeyName s) = True"
| "is_KeyName _ = False"

text \<open>
  An environment for the examples: an empty name table and the signal numbers of Linux.
\<close>

definition ext_example :: extern where
  "ext_example =
     \<lparr>input_terminfo_get_name = Map.empty, sig2wcs = (\<lambda>signo. ''SIG''),
      SIGINT = 2, SIGTERM = 15, SIGABRT = 6, SIGSEGV = 11\<rparr>"

text \<open>
  What it means for a string to be the numeral of a number in base \<open>b\<close>: its characters
  are digits below \<open>b\<close>, lower-case from ten on, it has no leading zero unless it is
  \<open>0\<close>, and read from the left it gives the number. There is one such string for each
  number.
\<close>

definition digit_value :: "char \<Rightarrow> nat" where
  "digit_value c =
     (let n = of_char c :: nat
      in if 48 \<le> n \<and> n \<le> 57 then n - 48
         else if 97 \<le> n \<and> n \<le> 102 then n - 87
         else 16)"

definition is_numeral_of :: "nat \<Rightarrow> string \<Rightarrow> nat \<Rightarrow> bool" where
  "is_numeral_of b s n =
     (s \<noteq> [] \<and> list_all (\<lambda>c. digit_value c < b) s \<and> (hd s = CHR ''0'' \<longrightarrow> s = ''0'') \<and>
      foldl (\<lambda>a c. a * b + digit_value c) 0 s = n)"

section \<open>Properties\<close>

subsection \<open>Exit-phrase detector\<close>

lemma length4_cases: "length (w::'a list) = 4 \<Longrightarrow> \<exists>a b c d. w = [a, b, c, d]"
  by (auto simp: length_Suc_conv numeral_eq_Suc)

lemma bytes_exit: "bytes_of ''exit'' = [0x65, 0x78, 0x69, 0x74]"
  by (simp add: bytes_of_def)

lemma bytes_quit: "bytes_of ''quit'' = [0x71, 0x75, 0x69, 0x74]"
  by (simp add: bytes_of_def)

lemma should_exit_shift:
  "length w = 4 \<Longrightarrow>
   should_exit w c = (tl w @ [c], tl w @ [c] = bytes_of ''exit'' \<or> tl w @ [c] = bytes_of ''quit'')"
  by (auto dest!: length4_cases simp: should_exit_def memcmp_eq_def bytes_exit bytes_quit)

lemma should_exit_run_char:
  "length w = 4 \<Longrightarrow>
   snd (should_exit_run w bs) = map (\<lambda>k. ends_with_phrase (w @ take (Suc k) bs)) [0..<length bs]"
proof (induction bs arbitrary: w)
  case Nil
  then show ?case by simp
next
  case (Cons c cs)
  from Cons.prems obtain a b d e where w: "w = [a, b, d, e]"
    by (auto dest: length4_cases)
  have len: "length (tl w @ [c]) = 4" using w by simp
  have step: "snd (should_exit_run w (c # cs)) =
      (tl w @ [c] = bytes_of ''exit'' \<or> tl w @ [c] = bytes_of ''quit'') #
      snd (should_exit_run (tl w @ [c]) cs)"
    using Cons.prems by (simp add: should_exit_shift split: prod.splits)
  have hd0: "ends_with_phrase (w @ take (Suc 0) (c # cs)) =
      (tl w @ [c] = bytes_of ''exit'' \<or> tl w @ [c] = bytes_of ''quit'')"
    using w by (simp add: ends_with_phrase_def)
  have tl0: "ends_with_phrase (w @ take (Suc (Suc k)) (c # cs)) =
      ends_with_phrase ((tl w @ [c]) @ take (Suc k) cs)" for k
    using w by (simp add: ends_with_phrase_def Suc_diff_le)
  have "map (\<lambda>k. ends_with_phrase (w @ take (Suc k) (c # cs))) [0..<length (c # cs)] =
        ends_with_phrase (w @ take (Suc 0) (c # cs)) #
        map (\<lambda>k. ends_with_phrase (w @ take (Suc (Suc k)) (c # cs))) [0..<length cs]"
    by (simp add: upt_conv_Cons map_Suc_upt [symmetric] del: upt_Suc take_Suc_Cons)
  then show ?case
    using step hd0 tl0 Cons.IH [OF len] by simp
qed

lemma init_ends: "ends_with_phrase (exit_chars_init @ xs) = (4 \<le> length xs \<and> ends_with_phrase xs)"
proof (cases "4 \<le> length xs")
  case True
  have "length exit_chars_init = 4" by (simp add: exit_chars_init_def)
  with True have "drop (length (exit_chars_init @ xs) - 4) (exit_chars_init @ xs) =
      drop (length xs - 4) xs"
    by simp
  with True show ?thesis by (simp only: ends_with_phrase_def) simp
next
  case False
  then have "length xs < 4" by simp
  then consider "xs = []" | a where "xs = [a]" | a b where "xs = [a,b]" | a b c where "xs = [a,b,c]"
    by (cases xs rule: list.exhaust; simp; (cases "tl xs"; simp); (cases "tl (tl xs)"; simp)) 
  then show ?thesis using False
    by cases (auto simp: ends_with_phrase_def exit_chars_init_def bytes_exit bytes_quit)
qed

lemma ends_take:
  assumes "k < length bs" "3 \<le> k"
  shows "ends_with_phrase (take (Suc k) bs) =
         (take 4 (drop (k - 3) bs) \<in> {bytes_of ''exit'', bytes_of ''quit''})"
proof -
  have l: "length (take (Suc k) bs) = Suc k" using assms by simp
  have d: "Suc k - 4 = k - 3" and t: "Suc k - (k - 3) = 4" using assms by simp_all
  have "drop (length (take (Suc k) bs) - 4) (take (Suc k) bs) = take 4 (drop (k - 3) bs)"
    unfolding l d drop_take t ..
  then show ?thesis by (simp only: ends_with_phrase_def) auto
qed

lemma init_run_true:
  "True \<in> set (snd (should_exit_run exit_chars_init bs)) \<longleftrightarrow>
   (\<exists>k. k + 4 \<le> length bs \<and> take 4 (drop k bs) \<in> {bytes_of ''exit'', bytes_of ''quit''})"
proof -
  have len: "length exit_chars_init = 4" by (simp add: exit_chars_init_def)
  have "True \<in> set (snd (should_exit_run exit_chars_init bs)) \<longleftrightarrow>
        (\<exists>k<length bs. ends_with_phrase (exit_chars_init @ take (Suc k) bs))"
    by (auto simp: should_exit_run_char [OF len])
  also have "\<dots> \<longleftrightarrow> (\<exists>k<length bs. 3 \<le> k \<and> ends_with_phrase (take (Suc k) bs))"
    by (auto simp: init_ends)
  also have "\<dots> \<longleftrightarrow> (\<exists>k<length bs. 3 \<le> k \<and>
       take 4 (drop (k - 3) bs) \<in> {bytes_of ''exit'', bytes_of ''quit''})"
    using ends_take by blast
  also have "\<dots> \<longleftrightarrow> (\<exists>k. k + 4 \<le> length bs \<and>
       take 4 (drop k bs) \<in> {bytes_of ''exit'', bytes_of ''quit''})"
  proof
    assume "\<exists>k<length bs. 3 \<le> k \<and> take 4 (drop (k - 3) bs) \<in> {bytes_of ''exit'', bytes_of ''quit''}"
    then obtain k where "k < length bs" "3 \<le> k"
      "take 4 (drop (k - 3) bs) \<in> {bytes_of ''exit'', bytes_of ''quit''}" by blast
    then have "(k - 3) + 4 \<le> length bs \<and>
      take 4 (drop (k - 3) bs) \<in> {bytes_of ''exit'', bytes_of ''quit''}" by simp
    then show "\<exists>k. k + 4 \<le> length bs \<and>
       take 4 (drop k bs) \<in> {bytes_of ''exit'', bytes_of ''quit''}" by blast
  next
    assume "\<exists>k. k + 4 \<le> length bs \<and>
       take 4 (drop k bs) \<in> {bytes_of ''exit'', bytes_of ''quit''}"
    then obtain k where "k + 4 \<le> length bs"
      "take 4 (drop k bs) \<in> {bytes_of ''exit'', bytes_of ''quit''}" by blast
    then have "k + 3 < length bs \<and> 3 \<le> k + 3 \<and>
      take 4 (drop (k + 3 - 3) bs) \<in> {bytes_of ''exit'', bytes_of ''quit''}" by simp
    then show "\<exists>k<length bs. 3 \<le> k \<and>
       take 4 (drop (k - 3) bs) \<in> {bytes_of ''exit'', bytes_of ''quit''}" by blast
  qed
  finally show ?thesis .
qed

lemma split4:
  assumes "p1 @ p2 = [a, b, c, d]" "p1 \<noteq> []" "p2 \<noteq> []"
  shows "(p1 = [a] \<and> p2 = [b, c, d]) \<or> (p1 = [a, b] \<and> p2 = [c, d]) \<or> (p1 = [a, b, c] \<and> p2 = [d])"
  using assms by (auto simp: append_eq_Cons_conv)

lemma interrupted_never:
  assumes "length w = 4"
    and "p1 @ p2 = bytes_of ''exit'' \<or> p1 @ p2 = bytes_of ''quit''"
    and "p1 \<noteq> []" "p2 \<noteq> []" "z \<noteq> last p1" "z \<noteq> hd p2"
  shows "True \<notin> set (snd (should_exit_run w (p1 @ [z] @ p2)))"
proof -
  from assms(1) obtain a b c d where w: "w = [a, b, c, d]"
    by (auto dest: length4_cases)
  from assms(2) show ?thesis
  proof
    assume "p1 @ p2 = bytes_of ''exit''"
    then have "p1 @ p2 = [0x65, 0x78, 0x69, 0x74]" by (simp add: bytes_exit)
    from split4 [OF this assms(3,4)] assms(5,6) show ?thesis
      unfolding w by (auto simp: should_exit_shift bytes_exit bytes_quit)
  next
    assume "p1 @ p2 = bytes_of ''quit''"
    then have "p1 @ p2 = [0x71, 0x75, 0x69, 0x74]" by (simp add: bytes_quit)
    from split4 [OF this assms(3,4)] assms(5,6) show ?thesis
      unfolding w by (auto simp: should_exit_shift bytes_exit bytes_quit)
  qed
qed

text \<open>
  Claim C2. Starting from any contents of the 4-byte window, pushing \<open>e\<close>, \<open>x\<close>, \<open>i\<close>,
  \<open>t\<close> (or \<open>q\<close>, \<open>u\<close>, \<open>i\<close>, \<open>t\<close>) returns false three times and then true. The value
  returned by the push of the \<open>k\<close>-th byte of any sequence is true exactly when the four
  bytes ending there are \<open>exit\<close> or \<open>quit\<close>, byte for byte; so from the initial window
  some push returns true exactly when the sequence holds one of the phrases
  contiguously. A sequence that interrupts the phrase, as \<open>e\<close>, \<open>x\<close>, \<open>z\<close>, \<open>i\<close>, \<open>t\<close> does
  for every byte \<open>z\<close>, never returns true, and neither does a phrase in another case. In
  general, a phrase cut anywhere inside by a byte that differs from the two letters next
  to it never returns true.
\<close>

theorem exit_phrase_detector:
  assumes "length w = 4"
  shows "snd (should_exit_run w (bytes_of ''exit'')) = [False, False, False, True]
       \<and> snd (should_exit_run w (bytes_of ''quit'')) = [False, False, False, True]
       \<and> snd (should_exit_run w bs) =
           map (\<lambda>k. ends_with_phrase (w @ take (Suc k) bs)) [0..<length bs]
       \<and> (True \<in> set (snd (should_exit_run exit_chars_init bs)) \<longleftrightarrow>
           (\<exists>k. k + 4 \<le> length bs \<and>
                take 4 (drop k bs) \<in> {bytes_of ''exit'', bytes_of ''quit''}))
       \<and> snd (should_exit_run w [0x65, 0x78, z, 0x69, 0x74]) = [False, False, False, False, False]
       \<and> snd (should_exit_run w (bytes_of ''EXIT'')) = [False, False, False, False]
       \<and> snd (should_exit_run w (bytes_of ''Quit'')) = [False, False, False, False]
       \<and> ((pre @ post = bytes_of ''exit'' \<or> pre @ post = bytes_of ''quit'') \<and>
            pre \<noteq> [] \<and> post \<noteq> [] \<and> y \<noteq> last pre \<and> y \<noteq> hd post \<longrightarrow>
            True \<notin> set (snd (should_exit_run w (pre @ [y] @ post))))"
proof -
  from assms obtain a b c d where w: "w = [a, b, c, d]"
    by (auto dest: length4_cases)
  have 1: "snd (should_exit_run w (bytes_of ''exit'')) = [False, False, False, True]"
    and 2: "snd (should_exit_run w (bytes_of ''quit'')) = [False, False, False, True]"
    and 5: "snd (should_exit_run w [0x65, 0x78, z, 0x69, 0x74]) = [False, False, False, False, False]"
    unfolding w by (simp_all add: should_exit_shift bytes_exit bytes_quit)
  have 6: "snd (should_exit_run w (bytes_of ''EXIT'')) = [False, False, False, False]"
    and 7: "snd (should_exit_run w (bytes_of ''Quit'')) = [False, False, False, False]"
    unfolding w by (simp_all add: should_exit_shift bytes_exit bytes_quit bytes_of_def)
  have 8: "(pre @ post = bytes_of ''exit'' \<or> pre @ post = bytes_of ''quit'') \<and>
            pre \<noteq> [] \<and> post \<noteq> [] \<and> y \<noteq> last pre \<and> y \<noteq> hd post \<longrightarrow>
            True \<notin> set (snd (should_exit_run w (pre @ [y] @ post)))"
    using interrupted_never [OF assms, of pre post y] by blast
  have 3: "snd (should_exit_run w bs) =
           map (\<lambda>k. ends_with_phrase (w @ take (Suc k) bs)) [0..<length bs]"
    by (rule should_exit_run_char [OF assms])
  show ?thesis
    using 1 2 3 init_run_true [of bs] 5 6 7 8 by blast
qed

theorem exit_phrase_detector_witness:
  "length exit_chars_init = 4
   \<and> snd (should_exit_run exit_chars_init (bytes_of ''exit'')) = [False, False, False, True]
   \<and> snd (should_exit_run exit_chars_init (bytes_of ''quit'')) = [False, False, False, True]
   \<and> snd (should_exit_run exit_chars_init [0x65, 0x78, 0x7A, 0x69, 0x74]) = [False, False, False, False, False]
   \<and> [0x65] @ [0x78, 0x69, 0x74] = bytes_of ''exit''
   \<and> (0x7A :: byte) \<noteq> last [0x65] \<and> (0x7A :: byte) \<noteq> hd [0x78, 0x69, 0x74]
   \<and> True \<notin> set (snd (should_exit_run exit_chars_init ([0x65] @ [0x7A] @ [0x78, 0x69, 0x74])))"
proof -
  have h: "length exit_chars_init = 4" by (simp add: exit_chars_init_def)
  have e: "[0x65] @ [0x78, 0x69, 0x74] = bytes_of ''exit''" by (simp add: bytes_exit)
  have n: "(0x7A :: byte) \<noteq> last [0x65]" "(0x7A :: byte) \<noteq> hd [0x78, 0x69, 0x74]" by simp_all
  note t = exit_phrase_detector [OF h, where bs = "[]" and z = "0x7A" and pre = "[0x65]"
    and post = "[0x78, 0x69, 0x74]" and y = "0x7A"]
  have "True \<notin> set (snd (should_exit_run exit_chars_init ([0x65] @ [0x7A] @ [0x78, 0x69, 0x74])))"
    using t e n by blast
  then show ?thesis
    using h e n t by (simp only:) simp
qed

subsection \<open>Sequence matcher\<close>

lemma length8_cases:
  "length (w::'a list) = 8 \<Longrightarrow> \<exists>a b c d e f g h. w = [a, b, c, d, e, f, g, h]"
  by (auto simp: length_Suc_conv numeral_eq_Suc)

lemma key_name_shift_eq: "length w = 8 \<Longrightarrow> key_name_shift w c = tl w @ [c]"
  by (auto dest!: length8_cases simp: key_name_shift_def)

text \<open>The loop from index \<open>n - 1\<close> down to 0 asks for the candidates in order until one matches.\<close>

lemma key_name_loop_scan:
  "key_name_loop tbl r (int n - 1) =
     (let cands = map (\<lambda>i. take (8 - i) (drop i r)) (rev [0..<n])
      in (case find (\<lambda>s. tbl s \<noteq> None) cands of
            None \<Rightarrow> (cands, None)
          | Some s \<Rightarrow> (takeWhile (\<lambda>s. tbl s = None) cands @ [s], tbl s)))"
proof (induction n)
  case 0
  show ?case by (simp add: key_name_loop.simps [of tbl r "- 1"])
next
  case (Suc n)
  have idx: "int (Suc n) - 1 = int n" by simp
  have len: "nat (8 - int n) = 8 - n" by arith
  have step: "key_name_loop tbl r (int n) =
      (case tbl (take (8 - n) (drop n r)) of
         Some out_name \<Rightarrow> ([take (8 - n) (drop n r)], Some out_name)
       | None \<Rightarrow> (take (8 - n) (drop n r) # fst (key_name_loop tbl r (int n - 1)),
                   snd (key_name_loop tbl r (int n - 1))))"
    by (subst key_name_loop.simps) (simp add: len Let_def split: option.splits prod.splits)
  show ?case
    unfolding idx step Suc.IH
    by (simp add: Let_def split: option.splits)
qed

lemma cands8: "length r = 8 \<Longrightarrow>
  map (\<lambda>i. take (8 - i) (drop i r)) (rev [0..<8]) = map (\<lambda>k. drop (8 - k) r) [1..<9]"
  by (auto dest!: length8_cases simp: upt_rec numeral_eq_Suc)

lemma key_name_char:
  assumes "length w = 8"
  shows "key_name tbl w c =
     (let cands = map (\<lambda>k. drop (8 - k) (tl w @ [c])) [1..<9]
      in (tl w @ [c],
          takeWhile (\<lambda>s. tbl s = None) cands @
            (case find (\<lambda>s. tbl s \<noteq> None) cands of None \<Rightarrow> [] | Some s \<Rightarrow> [s]),
          case find (\<lambda>s. tbl s \<noteq> None) cands of None \<Rightarrow> None | Some s \<Rightarrow> tbl s))"
proof -
  have len: "length (tl w @ [c]) = 8" using assms by simp
  have tw: "find (\<lambda>s. tbl s \<noteq> None) xs = None \<Longrightarrow> takeWhile (\<lambda>s. tbl s = None) xs = xs" for xs
    by (induction xs) (auto split: if_splits)
  have kn: "key_name tbl w c =
      (tl w @ [c], fst (key_name_loop tbl (tl w @ [c]) 7), snd (key_name_loop tbl (tl w @ [c]) 7))"
    by (simp add: key_name_def key_name_shift_eq [OF assms] Let_def split: prod.splits)
  have "key_name_loop tbl (tl w @ [c]) (int 8 - 1) =
     (let cands = map (\<lambda>k. drop (8 - k) (tl w @ [c])) [1..<9]
      in (case find (\<lambda>s. tbl s \<noteq> None) cands of
            None \<Rightarrow> (cands, None)
          | Some s \<Rightarrow> (takeWhile (\<lambda>s. tbl s = None) cands @ [s], tbl s)))"
    unfolding key_name_loop_scan cands8 [OF len] ..
  then have loop: "key_name_loop tbl (tl w @ [c]) 7 =
     (let cands = map (\<lambda>k. drop (8 - k) (tl w @ [c])) [1..<9]
      in (case find (\<lambda>s. tbl s \<noteq> None) cands of
            None \<Rightarrow> (cands, None)
          | Some s \<Rightarrow> (takeWhile (\<lambda>s. tbl s = None) cands @ [s], tbl s)))"
    by simp
  show ?thesis
    unfolding kn loop
    by (simp add: Let_def tw split: option.splits)
qed

lemma find_upt_cands:
  "find (\<lambda>s. tbl s \<noteq> None) (map f [1..<9]) = None \<longleftrightarrow> (\<forall>k\<in>{1..8::nat}. tbl (f k) = None)"
proof -
  have "set [1..<9] = {1..8::nat}" by auto
  then show ?thesis by (auto simp: find_None_iff simp del: set_upt upt_Suc)
qed

lemma find_first_match:
  assumes "find (\<lambda>s. tbl s \<noteq> None) (map f [1..<9]) = Some s"
  shows "\<exists>k\<in>{1..8::nat}. s = f k \<and> tbl (f k) \<noteq> None \<and> (\<forall>j\<in>{1..<k}. tbl (f j) = None)"
proof -
  from assms obtain i where i: "i < 8" "tbl (f (1 + i)) \<noteq> None" "s = f (1 + i)"
    and before: "\<forall>j<i. tbl (f (1 + j)) = None"
    by (auto simp: find_Some_iff simp del: upt_Suc)
  have "\<forall>j\<in>{1..<1 + i}. tbl (f j) = None"
  proof
    fix j assume "j \<in> {1..<1 + i}"
    then have "j - 1 < i" "1 + (j - 1) = j" by auto
    with before show "tbl (f j) = None" by metis
  qed
  with i show ?thesis by (intro bexI [of _ "1 + i"]) auto
qed

lemma cands_explicit:
  "map (\<lambda>k. drop (8 - k) [a, b, c, d, e, f, g, h]) [Suc 0..<9] =
   [[h], [g, h], [f, g, h], [e, f, g, h], [d, e, f, g, h], [c, d, e, f, g, h],
    [b, c, d, e, f, g, h], [a, b, c, d, e, f, g, h]]"
  by (simp add: upt_rec numeral_eq_Suc)

text \<open>
  Claim C1. For every window of 8 bytes and every name table, \<^verbatim>\<open>key_name\<close> shifts the
  byte in and asks the table for the suffixes of the new window in increasing length,
  from 1 to 8, up to and including the first one that the table knows; it returns the
  name of that shortest matching suffix, and no name exactly when all 8 suffixes fail.
  With a table that knows both \<open>{0x4F}\<close> as \<open>O\<close> and \<open>{0x1B,0x4F}\<close> as \<open>F1\<close>, feeding
  \<open>0x1B\<close> and then \<open>0x4F\<close> reports \<open>O\<close> after one query; with a table that knows only
  \<open>{0x1B,0x4F}\<close>, feeding \<open>0x41\<close>, \<open>0x1B\<close>, \<open>0x4F\<close> reports nothing twice and then \<open>F1\<close>,
  after the queries for \<open>{0x4F}\<close> and \<open>{0x1B,0x4F}\<close>.
\<close>

theorem sequence_matcher_search_order:
  assumes "length w = 8"
  shows "key_name tbl w c =
           (let cands = map (\<lambda>k. drop (8 - k) (tl w @ [c])) [1..<9]
            in (tl w @ [c],
                takeWhile (\<lambda>s. tbl s = None) cands @
                  (case find (\<lambda>s. tbl s \<noteq> None) cands of None \<Rightarrow> [] | Some s \<Rightarrow> [s]),
                case find (\<lambda>s. tbl s \<noteq> None) cands of None \<Rightarrow> None | Some s \<Rightarrow> tbl s))
       \<and> (snd (snd (key_name tbl w c)) = None \<longleftrightarrow>
            (\<forall>k\<in>{1..8}. tbl (drop (8 - k) (tl w @ [c])) = None))
       \<and> (\<forall>name. snd (snd (key_name tbl w c)) = Some name \<longrightarrow>
            (\<exists>k\<in>{1..8}. tbl (drop (8 - k) (tl w @ [c])) = Some name \<and>
               (\<forall>j\<in>{1..<k}. tbl (drop (8 - j) (tl w @ [c])) = None)))
       \<and> (tbl [0x4F] = Some ''O'' \<and> tbl [0x1B, 0x4F] = Some ''F1'' \<longrightarrow>
            last (snd (key_name_feed tbl w [0x1B, 0x4F])) = ([[0x4F]], Some ''O''))
       \<and> map snd (snd (key_name_feed (Map.empty([0x1B, 0x4F] \<mapsto> ''F1'')) w [0x41, 0x1B, 0x4F])) =
            [None, None, Some ''F1'']
       \<and> fst (last (snd (key_name_feed (Map.empty([0x1B, 0x4F] \<mapsto> ''F1'')) w [0x41, 0x1B, 0x4F]))) =
            [[0x4F], [0x1B, 0x4F]]"
proof -
  let ?f = "\<lambda>k. drop (8 - k) (tl w @ [c])"
  note kn = key_name_char [OF assms, of tbl c]
  have res: "snd (snd (key_name tbl w c)) =
      (case find (\<lambda>s. tbl s \<noteq> None) (map ?f [1..<9]) of None \<Rightarrow> None | Some s \<Rightarrow> tbl s)"
    unfolding kn by (simp add: Let_def)
  have 2: "snd (snd (key_name tbl w c)) = None \<longleftrightarrow> (\<forall>k\<in>{1..8}. tbl (?f k) = None)"
  proof (cases "find (\<lambda>s. tbl s \<noteq> None) (map ?f [1..<9])")
    case None
    then show ?thesis using find_upt_cands [of tbl ?f] by (simp add: res)
  next
    case (Some s)
    then have a1: "tbl s \<noteq> None" by (auto simp: find_Some_iff simp del: upt_Suc)
    have a2: "\<not> (\<forall>k\<in>{1..8}. tbl (?f k) = None)"
      using Some find_upt_cands [of tbl ?f] by (simp only: option.distinct not_False_eq_True)
    have r: "snd (snd (key_name tbl w c)) = tbl s"
      using Some by (simp only: res option.case)
    show ?thesis unfolding r using a1 a2 by blast
  qed
  have 3: "\<forall>name. snd (snd (key_name tbl w c)) = Some name \<longrightarrow>
            (\<exists>k\<in>{1..8}. tbl (?f k) = Some name \<and> (\<forall>j\<in>{1..<k}. tbl (?f j) = None))"
  proof (intro allI impI)
    fix name assume a: "snd (snd (key_name tbl w c)) = Some name"
    then obtain s where s: "find (\<lambda>s. tbl s \<noteq> None) (map ?f [1..<9]) = Some s" "tbl s = Some name"
      by (auto simp: res split: option.splits)
    from find_first_match [OF s(1)] s(2)
    show "\<exists>k\<in>{1..8}. tbl (?f k) = Some name \<and> (\<forall>j\<in>{1..<k}. tbl (?f j) = None)"
      by auto
  qed
  from assms obtain a b d e f g h i where w: "w = [a, b, d, e, f, g, h, i]"
    by (auto dest: length8_cases)
  have kn': "key_name t [a, b, d, e, f, g, h, i] x =
      (let cands = map (\<lambda>k. drop (8 - k) [b, d, e, f, g, h, i, x]) [1..<9]
       in (tl [a, b, d, e, f, g, h, i] @ [x],
           takeWhile (\<lambda>s. t s = None) cands @
             (case find (\<lambda>s. t s \<noteq> None) cands of None \<Rightarrow> [] | Some s \<Rightarrow> [s]),
           case find (\<lambda>s. t s \<noteq> None) cands of None \<Rightarrow> None | Some s \<Rightarrow> t s))"
    for t a b d e f g h i x
    using key_name_char [of "[a, b, d, e, f, g, h, i]" t x] by simp
  have 4: "tbl [0x4F] = Some ''O'' \<and> tbl [0x1B, 0x4F] = Some ''F1'' \<longrightarrow>
            last (snd (key_name_feed tbl w [0x1B, 0x4F])) = ([[0x4F]], Some ''O'')"
    unfolding w by (simp add: kn' cands_explicit Let_def split: prod.splits)
  have 5: "map snd (snd (key_name_feed (Map.empty([0x1B, 0x4F] \<mapsto> ''F1'')) w [0x41, 0x1B, 0x4F])) =
            [None, None, Some ''F1'']"
    unfolding w by (simp add: kn' cands_explicit Let_def split: prod.splits)
  have 6: "fst (last (snd (key_name_feed (Map.empty([0x1B, 0x4F] \<mapsto> ''F1'')) w [0x41, 0x1B, 0x4F]))) =
            [[0x4F], [0x1B, 0x4F]]"
    unfolding w by (simp add: kn' cands_explicit Let_def split: prod.splits)
  show ?thesis using kn 2 3 4 5 6 by blast
qed

theorem sequence_matcher_search_order_witness:
  "length key_chars_init = 8
   \<and> [0x4F] \<noteq> [0x1B, 0x4F :: byte]
   \<and> last (snd (key_name_feed (Map.empty([0x4F] \<mapsto> ''O'', [0x1B, 0x4F] \<mapsto> ''F1''))
        key_chars_init [0x1B, 0x4F])) = ([[0x4F]], Some ''O'')
   \<and> map snd (snd (key_name_feed (Map.empty([0x1B, 0x4F] \<mapsto> ''F1'')) key_chars_init
        [0x41, 0x1B, 0x4F])) = [None, None, Some ''F1'']"
proof -
  have h: "length key_chars_init = 8" by (simp add: key_chars_init_def)
  show ?thesis
    using h sequence_matcher_search_order
      [OF h, of "Map.empty([0x4F] \<mapsto> ''O'', [0x1B, 0x4F] \<mapsto> ''F1'')" 0]
    by simp
qed

subsection \<open>Byte classifier\<close>

lemma table_all: "list_all (\<lambda>n. ctrl_symbolic_names ! n = spec_alias n) [0..<32]"
  by code_simp

lemma table_alias: "n < 32 \<Longrightarrow> ctrl_symbolic_names ! n = spec_alias n"
  using table_all by (simp add: list_all_iff)

lemma ctrl_desc:
  "c < 32 \<Longrightarrow> char_description c =
     [CHR 0x5C, CHR ''c'', char_of (unat c + 64)] @
     (case spec_alias (unat c) of Some name \<Rightarrow> ''   (or '' @ name @ '')'' | None \<Rightarrow> [])"
  by (simp add: char_description_def table_alias word_less_nat_alt)

lemma fmt_lengths_all:
  "list_all (\<lambda>n. length (fmt_3u n) = 3 \<and> length (fmt_03o n) = 3 \<and> length (fmt_02X n) = 2) [0..<32]"
  by code_simp

lemma fmt_lengths:
  "n < 32 \<Longrightarrow> length (fmt_3u n) = 3 \<and> length (fmt_03o n) = 3 \<and> length (fmt_02X n) = 2"
  using fmt_lengths_all by (simp add: list_all_iff)

text \<open>
  Claim C4, as amended. For every byte below 32 the description, which starts at column 35
  of the line printed, begins with a backslash, the letter \<open>c\<close> and the character whose
  code is the value plus 64: the escape is written with \<^verbatim>\<open>\c\<close>, not with a caret.
\<close>

theorem control_byte_rendering:
  "c < 32 \<Longrightarrow>
     take 3 (char_description c) = [CHR 0x5C, CHR ''c'', char_of (unat c + 64)]
     \<and> (of_char (char_of (unat c + 64) :: char) :: nat) = unat c + 64
     \<and> take 3 (drop 35 (output_info_about_char c)) = [CHR 0x5C, CHR ''c'', char_of (unat c + 64)]"
proof -
  assume c: "c < 32"
  then have n: "unat c < 32" by (simp add: word_less_nat_alt)
  have 1: "take 3 (char_description c) = [CHR 0x5C, CHR ''c'', char_of (unat c + 64)]"
    by (simp add: ctrl_desc [OF c])
  have 2: "(of_char (char_of (unat c + 64) :: char) :: nat) = unat c + 64"
    using n by (simp add: of_char_of)
  define pre where "pre = ''dec: '' @ fmt_3u (unat c) @ ''  oct: '' @ fmt_03o (unat c) @
     ''  hex: '' @ fmt_02X (unat c) @ ''  char: ''"
  have len: "length pre = 35"
    using fmt_lengths [of "unat c"] n by (simp add: pre_def)
  have "output_info_about_char c = pre @ (char_description c @ [CHR 0x0A])"
    by (simp add: output_info_about_char_def pre_def)
  then have "drop 35 (output_info_about_char c) = char_description c @ [CHR 0x0A]"
    using len by simp
  then have 3: "take 3 (drop 35 (output_info_about_char c)) = take 3 (char_description c)"
    by (simp add: ctrl_desc [OF c])
  show ?thesis using 1 2 3 by simp
qed

theorem control_byte_rendering_witness:
  "(13 :: byte) < 32 \<and> take 3 (char_description 13) = [CHR 0x5C, CHR ''c'', CHR ''M'']"
proof -
  have h: "(13 :: byte) < 32" by simp
  have c: "char_of (unat (13 :: byte) + 64) = CHR ''M''" by code_simp
  show ?thesis using h control_byte_rendering [OF h] by (simp only: c)
qed

theorem control_byte_caret_counterexample:
  "char_description 1 = [CHR 0x5C, CHR ''c'', CHR ''A'']
   \<and> CHR ''^'' \<notin> set (output_info_about_char 1)"
  by code_simp

text \<open>
  Claim C5, as amended. For a control byte the alias \<^verbatim>\<open>   (or \<close>\<open>name\<close>\<^verbatim>\<open>)\<close> is appended exactly
  when the value is one of the 8 codes 7, 8, 9, 10, 11, 12, 13 and 27, with the names
  \<^verbatim>\<open>\a\<close>, \<^verbatim>\<open>\b\<close>, \<^verbatim>\<open>\t\<close>, \<^verbatim>\<open>\n\<close>, \<^verbatim>\<open>\v\<close>, \<^verbatim>\<open>\f\<close>, \<^verbatim>\<open>\r\<close> and \<^verbatim>\<open>\e\<close>; code 14 has none. The table
  holds 8 names, not 9.
\<close>

theorem named_aliases:
  "c < 32 \<Longrightarrow>
     ctrl_symbolic_names ! unat c = spec_alias (unat c)
     \<and> char_description c =
         [CHR 0x5C, CHR ''c'', char_of (unat c + 64)] @
         (case spec_alias (unat c) of Some name \<Rightarrow> ''   (or '' @ name @ '')'' | None \<Rightarrow> [])
     \<and> (spec_alias (unat c) \<noteq> None \<longleftrightarrow> c \<in> {7, 8, 9, 10, 11, 12, 13, 27})
     \<and> spec_alias 14 = None
     \<and> char_description 14 = [CHR 0x5C, CHR ''c'', CHR ''N'']
     \<and> length (filter ((\<noteq>) None) ctrl_symbolic_names) = 8"
proof -
  assume c: "c < 32"
  then have n: "unat c < 32" by (simp add: word_less_nat_alt)
  have eq: "unat c = k \<longleftrightarrow> c = of_nat k" if "k < 256" for k
    using that by (auto simp: unat_of_nat)
  have 3: "spec_alias (unat c) \<noteq> None \<longleftrightarrow> c \<in> {7, 8, 9, 10, 11, 12, 13, 27}"
    using eq [of 7] eq [of 8] eq [of 9] eq [of 10] eq [of 11] eq [of 12] eq [of 13] eq [of 27]
    by (simp add: spec_alias_def)
  have 4: "spec_alias 14 = None" by (simp add: spec_alias_def)
  have 5: "char_description 14 = [CHR 0x5C, CHR ''c'', CHR ''N'']" by code_simp
  have 6: "length (filter ((\<noteq>) None) ctrl_symbolic_names) = 8"
    by (simp add: ctrl_symbolic_names_def)
  show ?thesis using table_alias [OF n] ctrl_desc [OF c] 3 4 5 6 by simp
qed

theorem named_aliases_witness:
  "(27 :: byte) < 32 \<and> ctrl_symbolic_names ! unat (27 :: byte) = Some [CHR 0x5C, CHR ''e'']
   \<and> char_description 27 = [CHR 0x5C, CHR ''c'', CHR ''[''] @ ''   (or '' @ [CHR 0x5C] @ ''e)''"
proof -
  have h: "(27 :: byte) < 32" by simp
  have c: "char_of (unat (27 :: byte) + 64) = CHR ''[''" by code_simp
  have a: "spec_alias (unat (27 :: byte)) = Some [CHR 0x5C, CHR ''e'']" by (simp add: spec_alias_def)
  show ?thesis using h named_aliases [OF h] by (simp only: c a) simp
qed

theorem named_aliases_count_counterexample:
  "length (filter ((\<noteq>) None) ctrl_symbolic_names) \<noteq> 9"
  by (simp add: ctrl_symbolic_names_def)


subsection \<open>Arithmetic of doubles\<close>


lemma round_even_0 [simp]: "round_even a 0 = a"
  by (simp add: round_even_def)


















lemma dval_const [simp]: "dval (Double n 0) = real_of_int n"
  by (simp add: dval_def)





subsection \<open>Numerals\<close>

lemma digit_value_char_all:
  "list_all (\<lambda>d. digit_value (digit_char False d) = d) [0..<16]"
  by code_simp

lemma digit_value_char: "d < 16 \<Longrightarrow> digit_value (digit_char False d) = d"
  using digit_value_char_all by (simp add: list_all_iff)

lemma digit_char_zero: "d < 16 \<Longrightarrow> digit_char False d = CHR ''0'' \<longleftrightarrow> d = 0"
proof -
  have "list_all (\<lambda>d. digit_char False d = CHR ''0'' \<longleftrightarrow> d = 0) [0..<16]"
    by code_simp
  then show "d < 16 \<Longrightarrow> digit_char False d = CHR ''0'' \<longleftrightarrow> d = 0"
    by (simp add: list_all_iff)
qed

text \<open>The digits that the conversions print are the numeral of the number.\<close>

lemma digits_numeral:
  assumes b: "2 \<le> b" "b \<le> 16"
  shows "is_numeral_of b (digits False b n) n"
proof (induction n rule: less_induct)
  case (less n)
  show ?case
  proof (cases "n < b")
    case True
    then have d: "digits False b n = [digit_char False n]"
      using b by (subst digits.simps) simp
    have "n < 16" using True b by simp
    then show ?thesis
      using True by (simp add: d is_numeral_of_def digit_value_char digit_char_zero)
  next
    case False
    define m where "m = n div b"
    have m: "m < n" "0 < m" using False b by (simp_all add: m_def div_greater_zero_iff)
    have ih: "is_numeral_of b (digits False b m) m" by (rule less.IH [OF m(1)])
    have d: "digits False b n = digits False b m @ [digit_char False (n mod b)]"
      using False b by (subst digits.simps) (simp add: m_def)
    have r: "n mod b < 16" "n mod b < b" using b by (simp_all add: less_le_trans [OF mod_less_divisor])
    have ne: "digits False b m \<noteq> []" using ih by (simp add: is_numeral_of_def)
    have nz: "hd (digits False b m) \<noteq> CHR ''0''"
    proof
      assume "hd (digits False b m) = CHR ''0''"
      with ih have "digits False b m = ''0''" by (simp add: is_numeral_of_def)
      with ih have "m = 0" by (simp add: is_numeral_of_def digit_value_def)
      with m(2) show False by simp
    qed
    have "foldl (\<lambda>a c. a * b + digit_value c) 0 (digits False b n) = m * b + n mod b"
      using ih r by (simp add: d is_numeral_of_def digit_value_char)
    also have "\<dots> = n" by (simp add: m_def)
    finally show ?thesis
      using ih r ne nz by (simp add: d is_numeral_of_def digit_value_char)
  qed
qed

subsection \<open>Timing tracker\<close>












lemma elapsed_output: "fst (output_elapsed_time now prev f) = elapsed_text (elapsed_us now prev) f"
  by (simp add: output_elapsed_time_def)




subsection \<open>Session loop\<close>

lemma loop_Read_byte:
  assumes "keep_running st" "rd (fcs \<and> \<not> cm) = wc" "wc \<noteq> WEOF" "wc \<le> 255"
  shows "process_input_loop ext cm fcs prev st (Read rd now # evs) =
     (let c = (word_of_int wc :: byte);
          er = should_exit (exit_recent st) c;
          km = output_matching_key_name (input_terminfo_get_name ext) (key_recent st) c;
          st' = st\<lparr>exit_recent := fst er, key_recent := fst km\<rparr>;
          report = [Elapsed (fst (output_elapsed_time now prev fcs)), CharInfo (output_info_about_char c)] @
                   (case snd km of Some s \<Rightarrow> [KeyName s] | None \<Rightarrow> [])
      in if snd er then (report @ [ExitNotice exit_text], st', Returned)
         else (report @ fst (process_input_loop ext cm True now st' evs),
               snd (process_input_loop ext cm True now st' evs)))"
  using assms
  by (simp add: Let_def output_elapsed_time_def split: prod.splits)



lemma process_input_alt:
  "process_input ext cm st evs =
     (Prompt (''Press a key'' @ [CHR 0x0A, CHR 0x0A]) #
        fst (process_input_loop ext cm False (Double 0 0) st evs),
      snd (process_input_loop ext cm False (Double 0 0) st evs))"
  by (simp add: process_input_def split: prod.splits)






lemma wide_char_numerals:
  assumes "0 \<le> wc"
  shows "\<exists>dec hex.
     wide_char_text wc =
       [CHR 0x0A] @ ''Unexpected wide character from input_common_readch(): '' @ dec @
       '' / 0x'' @ hex @ [CHR 0x0A]
     \<and> is_numeral_of 10 dec (nat wc) \<and> is_numeral_of 16 hex (nat (wc mod 2 ^ 64))"
proof -
  have 1: "is_numeral_of 10 (digits False 10 (nat wc)) (nat wc)"
    by (rule digits_numeral) simp_all
  have 2: "is_numeral_of 16 (digits False 16 (nat (wc mod 2 ^ 64))) (nat (wc mod 2 ^ 64))"
    by (rule digits_numeral) simp_all
  have 3: "wide_char_text wc =
       [CHR 0x0A] @ ''Unexpected wide character from input_common_readch(): '' @
       digits False 10 (nat wc) @ '' / 0x'' @ digits False 16 (nat (wc mod 2 ^ 64)) @ [CHR 0x0A]"
    using assms by (simp add: wide_char_text_def fmt_lld_def fmt_llx_def)
  from 1 2 3 show ?thesis by blast
qed

text \<open>
  Claim C6. When the loop is running and the unit read is above 255, the loop prints the
  message with the decimal numeral of the unit and, after \<^verbatim>\<open>0x\<close>, its hexadecimal
  numeral, and returns: nothing else is printed, the windows of the matcher and of the
  exit detector and the flag are as before, and the events that follow are not read.
\<close>

theorem oversized_input_unit:
  assumes "keep_running st" "rd (fcs \<and> \<not> cm) > 255"
  shows "(\<exists>dec hex.
            process_input_loop ext cm fcs prev st (Read rd now # evs) =
              ([WideChar ([CHR 0x0A] @ ''Unexpected wide character from input_common_readch(): '' @
                          dec @ '' / 0x'' @ hex @ [CHR 0x0A])], st, Returned)
          \<and> (\<not> fcs \<longrightarrow> process_input ext cm st (Read rd now # evs) =
              ([Prompt (''Press a key'' @ [CHR 0x0A, CHR 0x0A]),
                WideChar ([CHR 0x0A] @ ''Unexpected wide character from input_common_readch(): '' @
                          dec @ '' / 0x'' @ hex @ [CHR 0x0A])], st, Returned))
          \<and> is_numeral_of 10 dec (nat (rd (fcs \<and> \<not> cm)))
          \<and> is_numeral_of 16 hex (nat (rd (fcs \<and> \<not> cm) mod 2 ^ 64))
          \<and> (rd (fcs \<and> \<not> cm) < 2 ^ 64 \<longrightarrow> is_numeral_of 16 hex (nat (rd (fcs \<and> \<not> cm)))))
       \<and> process_input_loop ext cm fcs prev st (Read rd now # evs) =
           ([WideChar (wide_char_text (rd (fcs \<and> \<not> cm)))], st, Returned)
       \<and> wide_char_text 256 =
           [CHR 0x0A] @ ''Unexpected wide character from input_common_readch(): 256 / 0x100'' @ [CHR 0x0A]
       \<and> wide_char_text 300 =
           [CHR 0x0A] @ ''Unexpected wide character from input_common_readch(): 300 / 0x12c'' @ [CHR 0x0A]
       \<and> wide_char_text 8364 =
           [CHR 0x0A] @ ''Unexpected wide character from input_common_readch(): 8364 / 0x20ac'' @ [CHR 0x0A]
       \<and> wide_char_text 1114111 =
           [CHR 0x0A] @ ''Unexpected wide character from input_common_readch(): 1114111 / 0x10ffff'' @ [CHR 0x0A]
       \<and> wide_char_text 2147483647 =
           [CHR 0x0A] @ ''Unexpected wide character from input_common_readch(): 2147483647 / 0x7fffffff'' @ [CHR 0x0A]"
proof -
  let ?wc = "rd (fcs \<and> \<not> cm)"
  have w: "?wc \<noteq> WEOF" using assms(2) by (simp add: WEOF_def)
  have 1: "process_input_loop ext cm fcs prev st (Read rd now # evs) =
           ([WideChar (wide_char_text ?wc)], st, Returned)" for prev
    using assms w by (simp add: Let_def)
  have 2: "\<not> fcs \<longrightarrow> process_input ext cm st (Read rd now # evs) =
           ([Prompt (''Press a key'' @ [CHR 0x0A, CHR 0x0A]), WideChar (wide_char_text ?wc)],
            st, Returned)"
  proof
    assume f: "\<not> fcs"
    with 1 [of "Double 0 0"] show "process_input ext cm st (Read rd now # evs) =
           ([Prompt (''Press a key'' @ [CHR 0x0A, CHR 0x0A]), WideChar (wide_char_text ?wc)],
            st, Returned)"
      by (simp add: process_input_def)
  qed
  have "0 \<le> ?wc" using assms(2) by simp
  from wide_char_numerals [OF this] obtain dec hex where
    t: "wide_char_text ?wc =
       [CHR 0x0A] @ ''Unexpected wide character from input_common_readch(): '' @ dec @
       '' / 0x'' @ hex @ [CHR 0x0A]"
    and d: "is_numeral_of 10 dec (nat ?wc)" and h: "is_numeral_of 16 hex (nat (?wc mod 2 ^ 64))"
    by blast
  have h': "?wc < 2 ^ 64 \<longrightarrow> is_numeral_of 16 hex (nat ?wc)"
  proof
    assume "?wc < 2 ^ 64"
    with \<open>0 \<le> ?wc\<close> have "?wc mod 2 ^ 64 = ?wc" by simp
    with h show "is_numeral_of 16 hex (nat ?wc)" by simp
  qed
  have a: "\<exists>dec hex.
            process_input_loop ext cm fcs prev st (Read rd now # evs) =
              ([WideChar ([CHR 0x0A] @ ''Unexpected wide character from input_common_readch(): '' @
                          dec @ '' / 0x'' @ hex @ [CHR 0x0A])], st, Returned)
          \<and> (\<not> fcs \<longrightarrow> process_input ext cm st (Read rd now # evs) =
              ([Prompt (''Press a key'' @ [CHR 0x0A, CHR 0x0A]),
                WideChar ([CHR 0x0A] @ ''Unexpected wide character from input_common_readch(): '' @
                          dec @ '' / 0x'' @ hex @ [CHR 0x0A])], st, Returned))
          \<and> is_numeral_of 10 dec (nat ?wc)
          \<and> is_numeral_of 16 hex (nat (?wc mod 2 ^ 64))
          \<and> (?wc < 2 ^ 64 \<longrightarrow> is_numeral_of 16 hex (nat ?wc))"
    using 1 [of prev] 2 d h h' unfolding t by blast
  note ev = wide_char_text_def fmt_lld_def fmt_llx_def digits.simps digit_char_def
  have i1: "wide_char_text 256 =
           [CHR 0x0A] @ ''Unexpected wide character from input_common_readch(): 256 / 0x100'' @ [CHR 0x0A]"
    by (simp add: ev)
  have i2: "wide_char_text 300 =
           [CHR 0x0A] @ ''Unexpected wide character from input_common_readch(): 300 / 0x12c'' @ [CHR 0x0A]"
    by (simp add: ev)
  have i3: "wide_char_text 8364 =
           [CHR 0x0A] @ ''Unexpected wide character from input_common_readch(): 8364 / 0x20ac'' @ [CHR 0x0A]"
    by (simp add: ev)
  have i4: "wide_char_text 1114111 =
           [CHR 0x0A] @ ''Unexpected wide character from input_common_readch(): 1114111 / 0x10ffff'' @ [CHR 0x0A]"
    by (simp add: ev)
  have i5: "wide_char_text 2147483647 =
           [CHR 0x0A] @ ''Unexpected wide character from input_common_readch(): 2147483647 / 0x7fffffff'' @ [CHR 0x0A]"
    by (simp add: ev)
  show ?thesis using a 1 [of prev] i1 i2 i3 i4 i5 by blast
qed

theorem oversized_input_unit_witness:
  "keep_running statics_init \<and> (300 :: int) > 255
   \<and> process_input ext_example False statics_init
        [Read (\<lambda>timed. 300) (Double 5 0), Read (\<lambda>timed. 104) (Double 6 0)] =
       ([Prompt (''Press a key'' @ [CHR 0x0A, CHR 0x0A]),
         WideChar ([CHR 0x0A] @ ''Unexpected wide character from input_common_readch(): 300 / 0x12c'' @ [CHR 0x0A])],
        statics_init, Returned)"
proof -
  have h: "keep_running statics_init" "(300 :: int) > 255"
    by (simp_all add: statics_init_def)
  note t = oversized_input_unit [where st = statics_init and rd = "\<lambda>timed. 300"
    and fcs = False and cm = False and ext = ext_example and prev = "Double 0 0"
    and now = "Double 5 0" and evs = "[Read (\<lambda>timed. 104) (Double 6 0)]", OF h]
  have l: "process_input_loop ext_example False False (Double 0 0) statics_init
        [Read (\<lambda>timed. 300) (Double 5 0), Read (\<lambda>timed. 104) (Double 6 0)] =
       ([WideChar (wide_char_text 300)], statics_init, Returned)"
    using t [THEN conjunct2, THEN conjunct1] by simp
  have w: "wide_char_text 300 =
       [CHR 0x0A] @ ''Unexpected wide character from input_common_readch(): 300 / 0x12c'' @ [CHR 0x0A]"
    using t by blast
  have "process_input ext_example False statics_init
        [Read (\<lambda>timed. 300) (Double 5 0), Read (\<lambda>timed. 104) (Double 6 0)] =
       ([Prompt (''Press a key'' @ [CHR 0x0A, CHR 0x0A]), WideChar (wide_char_text 300)],
        statics_init, Returned)"
    unfolding process_input_alt l by simp
  then show ?thesis using h unfolding w by simp
qed

text \<open>
  Claim C7. The handler prints its notice and returns the flag false exactly when the flag
  was false already or the signal is one of \<^verbatim>\<open>SIGINT\<close>, \<^verbatim>\<open>SIGTERM\<close>, \<^verbatim>\<open>SIGABRT\<close> and
  \<^verbatim>\<open>SIGSEGV\<close>; any other signal leaves the flag as it was. A signal outside the four,
  delivered before the loop tests its condition, adds the notice and the loop goes on
  as it would have without it; one of the four makes the loop return at that test.
\<close>

theorem signal_driven_termination:
  "snd (signal_handler ext signo kr) =
     (kr \<and> signo \<notin> {SIGINT ext, SIGTERM ext, SIGABRT ext, SIGSEGV ext})
   \<and> fst (signal_handler ext signo kr) =
       [CHR 0x0A] @ ''Signal #'' @ fmt_lld signo @ '' ('' @ sig2wcs ext signo @ '') received'' @
       [CHR 0x0A, CHR 0x0A]
   \<and> (signo \<notin> {SIGINT ext, SIGTERM ext, SIGABRT ext, SIGSEGV ext} \<longrightarrow>
        process_input_loop ext cm fcs prev st (Signal signo # evs) =
          (SignalNotice (fst (signal_handler ext signo (keep_running st))) #
             fst (process_input_loop ext cm fcs prev st evs),
           snd (process_input_loop ext cm fcs prev st evs)))
   \<and> (signo \<in> {SIGINT ext, SIGTERM ext, SIGABRT ext, SIGSEGV ext} \<longrightarrow>
        process_input_loop ext cm fcs prev st (Signal signo # Read rd now # evs) =
          ([SignalNotice (fst (signal_handler ext signo (keep_running st)))],
           st\<lparr>keep_running := False\<rparr>, Returned)
        \<and> process_input_loop ext cm fcs prev st [Signal signo] =
          ([SignalNotice (fst (signal_handler ext signo (keep_running st)))],
           st\<lparr>keep_running := False\<rparr>, Returned))"
proof -
  have 1: "snd (signal_handler ext signo kr) =
     (kr \<and> signo \<notin> {SIGINT ext, SIGTERM ext, SIGABRT ext, SIGSEGV ext})" for kr
    by (simp add: signal_handler_def)
  have 2: "fst (signal_handler ext signo kr) =
       [CHR 0x0A] @ ''Signal #'' @ fmt_lld signo @ '' ('' @ sig2wcs ext signo @ '') received'' @
       [CHR 0x0A, CHR 0x0A]"
    by (simp add: signal_handler_def)
  have step: "process_input_loop ext cm fcs prev st (Signal signo # es) =
      (SignalNotice (fst (signal_handler ext signo (keep_running st))) #
         fst (process_input_loop ext cm fcs prev
                (st\<lparr>keep_running := snd (signal_handler ext signo (keep_running st))\<rparr>) es),
       snd (process_input_loop ext cm fcs prev
                (st\<lparr>keep_running := snd (signal_handler ext signo (keep_running st))\<rparr>) es))" for es
    by (simp add: Let_def split: prod.splits)
  have 3: "signo \<notin> {SIGINT ext, SIGTERM ext, SIGABRT ext, SIGSEGV ext} \<longrightarrow>
        process_input_loop ext cm fcs prev st (Signal signo # evs) =
          (SignalNotice (fst (signal_handler ext signo (keep_running st))) #
             fst (process_input_loop ext cm fcs prev st evs),
           snd (process_input_loop ext cm fcs prev st evs))"
    unfolding step 1 by simp
  have 4: "signo \<in> {SIGINT ext, SIGTERM ext, SIGABRT ext, SIGSEGV ext} \<longrightarrow>
        process_input_loop ext cm fcs prev st (Signal signo # Read rd now # evs) =
          ([SignalNotice (fst (signal_handler ext signo (keep_running st)))],
           st\<lparr>keep_running := False\<rparr>, Returned)
        \<and> process_input_loop ext cm fcs prev st [Signal signo] =
          ([SignalNotice (fst (signal_handler ext signo (keep_running st)))],
           st\<lparr>keep_running := False\<rparr>, Returned)"
    unfolding step 1 by simp
  show ?thesis using 1 [of kr] 2 3 4 by blast
qed

theorem signal_driven_termination_witness:
  "(2 :: int) \<in> {SIGINT ext_example, SIGTERM ext_example, SIGABRT ext_example, SIGSEGV ext_example}
   \<and> (3 :: int) \<notin> {SIGINT ext_example, SIGTERM ext_example, SIGABRT ext_example, SIGSEGV ext_example}
   \<and> snd (signal_handler ext_example 2 True) = False
   \<and> snd (signal_handler ext_example 3 True) = True
   \<and> fst (process_input_loop ext_example True False (Double 0 0) statics_init
             [Signal 2, Read (\<lambda>timed. 104) (Double 5 0)]) =
        [SignalNotice (fst (signal_handler ext_example 2 True))]
   \<and> fst (process_input_loop ext_example True False (Double 0 0) statics_init
             [Signal 3, Read (\<lambda>timed. - 1) (Double 5 0)]) =
        [SignalNotice (fst (signal_handler ext_example 3 True))]"
proof -
  note a = signal_driven_termination [where ext = ext_example and signo = 2 and kr = True
    and cm = True and fcs = False and prev = "Double 0 0" and st = statics_init
    and rd = "\<lambda>timed. 104" and now = "Double 5 0" and evs = "[]"]
  note b = signal_driven_termination [where ext = ext_example and signo = 3 and kr = True
    and cm = True and fcs = False and prev = "Double 0 0" and st = statics_init
    and evs = "[Read (\<lambda>timed. - 1) (Double 5 0)]"]
  have m: "(2 :: int) \<in> {SIGINT ext_example, SIGTERM ext_example, SIGABRT ext_example, SIGSEGV ext_example}"
    "(3 :: int) \<notin> {SIGINT ext_example, SIGTERM ext_example, SIGABRT ext_example, SIGSEGV ext_example}"
    by (simp_all add: ext_example_def)
  have k: "keep_running statics_init = True" by (simp add: statics_init_def)
  have 1: "snd (signal_handler ext_example 2 True) = False"
    using a [THEN conjunct1] m by (simp only:) simp
  have 2: "snd (signal_handler ext_example 3 True) = True"
    using b [THEN conjunct1] m by (simp only:) simp
  have 3: "fst (process_input_loop ext_example True False (Double 0 0) statics_init
             [Signal 2, Read (\<lambda>timed. 104) (Double 5 0)]) =
        [SignalNotice (fst (signal_handler ext_example 2 True))]"
    using a [THEN conjunct2, THEN conjunct2, THEN conjunct2, THEN mp, OF m(1), THEN conjunct1]
    by (simp only: fst_conv k)
  have r: "process_input_loop ext_example True False (Double 0 0) statics_init [Read (\<lambda>timed. - 1) (Double 5 0)] =
      ([], statics_init, Returned)"
    by (simp add: WEOF_def k)
  have 4: "fst (process_input_loop ext_example True False (Double 0 0) statics_init
             [Signal 3, Read (\<lambda>timed. - 1) (Double 5 0)]) =
        [SignalNotice (fst (signal_handler ext_example 3 True))]"
    using b [THEN conjunct2, THEN conjunct2, THEN conjunct1, THEN mp, OF m(2)]
    by (simp only: fst_conv k r)
  show ?thesis using m 1 2 3 4 by simp
qed


lemma no_key_name_filter [simp]:
  "filter (\<lambda>x. \<not> is_KeyName x) (case n of Some s \<Rightarrow> [KeyName s] | None \<Rightarrow> []) = []"
  by (cases n) simp_all

lemma no_char_info_filter [simp]:
  "filter is_CharInfo (case n of Some s \<Rightarrow> [KeyName s] | None \<Rightarrow> []) = []"
  by (cases n) simp_all

lemma loop_Read_plain:
  assumes "keep_running st" "wc \<noteq> WEOF" "wc \<le> 255"
  shows "process_input_loop ext cm fcs prev st (Read (\<lambda>timed. wc) now # evs) =
     (let c = (word_of_int wc :: byte);
          er = should_exit (exit_recent st) c;
          km = output_matching_key_name (input_terminfo_get_name ext) (key_recent st) c;
          st' = st\<lparr>exit_recent := fst er, key_recent := fst km\<rparr>;
          report = [Elapsed (fst (output_elapsed_time now prev fcs)), CharInfo (output_info_about_char c)] @
                   (case snd km of Some s \<Rightarrow> [KeyName s] | None \<Rightarrow> [])
      in if snd er then (report @ [ExitNotice exit_text], st', Returned)
         else (report @ fst (process_input_loop ext cm True now st' evs),
               snd (process_input_loop ext cm True now st' evs)))"
  using loop_Read_byte [where rd = "\<lambda>timed. wc", OF assms(1) refl assms(2,3)] .

lemma matcher_window:
  "length w = 8 \<Longrightarrow> fst (output_matching_key_name tbl w c) = tl w @ [c]"
  by (simp add: output_matching_key_name_def key_name_def key_name_shift_eq Let_def
        split: prod.splits)

lemma matcher_none:
  "length w = 8 \<Longrightarrow> snd (output_matching_key_name Map.empty w c) = None"
proof -
  assume l: "length w = 8"
  have f: "find (\<lambda>s. (Map.empty :: name_table) s \<noteq> None) xs = None" for xs
    by (simp add: find_None_iff)
  show ?thesis
    unfolding output_matching_key_name_def key_name_char [OF l] Let_def f by simp
qed

lemma last_key_name [simp]:
  "last ((case n of Some s \<Rightarrow> [KeyName s] | None \<Rightarrow> []) @ [x]) = x"
  by simp

lemma exit_text_literal: "exit_text = [CHR 0x0A] @ ''Exiting at your request.'' @ [CHR 0x0A]"
  by (simp add: exit_text_def)

lemma info_h: "output_info_about_char 104 = ''dec: 104  oct: 150  hex: 68  char: h'' @ [CHR 0x0A]"
  by code_simp

lemma info_e: "output_info_about_char 101 = ''dec: 101  oct: 145  hex: 65  char: e'' @ [CHR 0x0A]"
  by code_simp

lemma info_l: "output_info_about_char 108 = ''dec: 108  oct: 154  hex: 6C  char: l'' @ [CHR 0x0A]"
  by code_simp

lemma info_o: "output_info_about_char 111 = ''dec: 111  oct: 157  hex: 6F  char: o'' @ [CHR 0x0A]"
  by code_simp

lemma info_x: "output_info_about_char 120 = ''dec: 120  oct: 170  hex: 78  char: x'' @ [CHR 0x0A]"
  by code_simp

lemma info_i: "output_info_about_char 105 = ''dec: 105  oct: 151  hex: 69  char: i'' @ [CHR 0x0A]"
  by code_simp

lemma info_t: "output_info_about_char 116 = ''dec: 116  oct: 164  hex: 74  char: t'' @ [CHR 0x0A]"
  by code_simp

text \<open>
  Claim C8. Fed the nine bytes of \<open>helloexit\<close>, at any clock readings and with any name
  table, a fresh session returns; apart from the lines of the matcher its output is the
  prompt, nine pairs of an elapsed-time field and the report of the byte, in order, and
  last, after the report of the ninth byte, the notice \<^verbatim>\<open>Exiting at your request.\<close>
  between two newlines. Fed the end-of-stream marker first, the session prints the
  prompt only and returns with its state untouched. With an empty table and clocks that
  start at 1700000000 s, the whole text printed is given line by line.
\<close>

theorem end_to_end_session:
  fixes t1 t2 t3 t4 t5 t6 t7 t8 t9 :: double
  defines "evs \<equiv> map (\<lambda>(c, t). Read (\<lambda>timed. of_char c) t)
        (zip ''helloexit'' [t1, t2, t3, t4, t5, t6, t7, t8, t9])"
  shows "snd (snd (process_input ext cm statics_init evs)) = Returned
   \<and> filter (\<lambda>x. \<not> is_KeyName x) (fst (process_input ext cm statics_init evs)) =
     [Prompt (''Press a key'' @ [CHR 0x0A, CHR 0x0A]),
      Elapsed (fst (output_elapsed_time t1 (Double 0 0) False)),
      CharInfo (''dec: 104  oct: 150  hex: 68  char: h'' @ [CHR 0x0A]),
      Elapsed (fst (output_elapsed_time t2 t1 True)),
      CharInfo (''dec: 101  oct: 145  hex: 65  char: e'' @ [CHR 0x0A]),
      Elapsed (fst (output_elapsed_time t3 t2 True)),
      CharInfo (''dec: 108  oct: 154  hex: 6C  char: l'' @ [CHR 0x0A]),
      Elapsed (fst (output_elapsed_time t4 t3 True)),
      CharInfo (''dec: 108  oct: 154  hex: 6C  char: l'' @ [CHR 0x0A]),
      Elapsed (fst (output_elapsed_time t5 t4 True)),
      CharInfo (''dec: 111  oct: 157  hex: 6F  char: o'' @ [CHR 0x0A]),
      Elapsed (fst (output_elapsed_time t6 t5 True)),
      CharInfo (''dec: 101  oct: 145  hex: 65  char: e'' @ [CHR 0x0A]),
      Elapsed (fst (output_elapsed_time t7 t6 True)),
      CharInfo (''dec: 120  oct: 170  hex: 78  char: x'' @ [CHR 0x0A]),
      Elapsed (fst (output_elapsed_time t8 t7 True)),
      CharInfo (''dec: 105  oct: 151  hex: 69  char: i'' @ [CHR 0x0A]),
      Elapsed (fst (output_elapsed_time t9 t8 True)),
      CharInfo (''dec: 116  oct: 164  hex: 74  char: t'' @ [CHR 0x0A]),
      ExitNotice ([CHR 0x0A] @ ''Exiting at your request.'' @ [CHR 0x0A])]
   \<and> length (filter is_CharInfo (fst (process_input ext cm statics_init evs))) = 9
   \<and> last (fst (process_input ext cm statics_init evs)) =
       ExitNotice ([CHR 0x0A] @ ''Exiting at your request.'' @ [CHR 0x0A])
   \<and> process_input ext cm statics_init (Read (\<lambda>timed. WEOF) t # rest) =
       ([Prompt (''Press a key'' @ [CHR 0x0A, CHR 0x0A])], statics_init, Returned)
   \<and> render (fst (process_input ext_example False statics_init
        (map (\<lambda>(c, t). Read (\<lambda>timed. of_char c) t)
           (zip ''helloexit'' [Double 217600000000 (- 7), Double 217600000016 (- 7), Double 217600000024 (- 7), Double 217600000088 (- 7), Double 217600000092 (- 7), Double 217600000348 (- 7), Double 217600000380 (- 7), Double 217600000382 (- 7), Double 217600000383 (- 7)])))) =
       concat (map (\<lambda>l. l @ [CHR 0x0A])
        [''Press a key'',
        '''',
        ''              dec: 104  oct: 150  hex: 68  char: h'',
        ''(125.000 ms)  dec: 101  oct: 145  hex: 65  char: e'',
        ''( 62.500 ms)  dec: 108  oct: 154  hex: 6C  char: l'',
        '''',
        ''(500.000 ms)  dec: 108  oct: 154  hex: 6C  char: l'',
        ''( 31.250 ms)  dec: 111  oct: 157  hex: 6F  char: o'',
        '''',
        ''              dec: 101  oct: 145  hex: 65  char: e'',
        '''',
        ''(250.000 ms)  dec: 120  oct: 170  hex: 78  char: x'',
        ''( 15.625 ms)  dec: 105  oct: 151  hex: 69  char: i'',
        ''(  7.812 ms)  dec: 116  oct: 164  hex: 74  char: t'',
        '''',
        ''Exiting at your request.''])
   \<and> render (fst (process_input ext_example False statics_init [Read (\<lambda>timed. WEOF) t])) =
       ''Press a key'' @ [CHR 0x0A, CHR 0x0A]"
proof -
  note run = process_input_alt loop_Read_plain WEOF_def statics_init_def exit_chars_init_def
    key_chars_init_def should_exit_shift matcher_window bytes_exit bytes_quit Let_def
    exit_text_literal info_h info_e info_l info_o info_x info_i info_t
  have 1: "snd (snd (process_input ext cm statics_init evs)) = Returned"
    unfolding evs_def by (simp add: run del: process_input_loop.simps)
  have 2: "filter (\<lambda>x. \<not> is_KeyName x) (fst (process_input ext cm statics_init evs)) =
     [Prompt (''Press a key'' @ [CHR 0x0A, CHR 0x0A]),
      Elapsed (fst (output_elapsed_time t1 (Double 0 0) False)),
      CharInfo (''dec: 104  oct: 150  hex: 68  char: h'' @ [CHR 0x0A]),
      Elapsed (fst (output_elapsed_time t2 t1 True)),
      CharInfo (''dec: 101  oct: 145  hex: 65  char: e'' @ [CHR 0x0A]),
      Elapsed (fst (output_elapsed_time t3 t2 True)),
      CharInfo (''dec: 108  oct: 154  hex: 6C  char: l'' @ [CHR 0x0A]),
      Elapsed (fst (output_elapsed_time t4 t3 True)),
      CharInfo (''dec: 108  oct: 154  hex: 6C  char: l'' @ [CHR 0x0A]),
      Elapsed (fst (output_elapsed_time t5 t4 True)),
      CharInfo (''dec: 111  oct: 157  hex: 6F  char: o'' @ [CHR 0x0A]),
      Elapsed (fst (output_elapsed_time t6 t5 True)),
      CharInfo (''dec: 101  oct: 145  hex: 65  char: e'' @ [CHR 0x0A]),
      Elapsed (fst (output_elapsed_time t7 t6 True)),
      CharInfo (''dec: 120  oct: 170  hex: 78  char: x'' @ [CHR 0x0A]),
      Elapsed (fst (output_elapsed_time t8 t7 True)),
      CharInfo (''dec: 105  oct: 151  hex: 69  char: i'' @ [CHR 0x0A]),
      Elapsed (fst (output_elapsed_time t9 t8 True)),
      CharInfo (''dec: 116  oct: 164  hex: 74  char: t'' @ [CHR 0x0A]),
      ExitNotice ([CHR 0x0A] @ ''Exiting at your request.'' @ [CHR 0x0A])]"
    unfolding evs_def by (simp add: run del: process_input_loop.simps)
  have 3: "length (filter is_CharInfo (fst (process_input ext cm statics_init evs))) = 9"
    unfolding evs_def by (simp add: run del: process_input_loop.simps)
  have 4: "last (fst (process_input ext cm statics_init evs)) =
       ExitNotice ([CHR 0x0A] @ ''Exiting at your request.'' @ [CHR 0x0A])"
    unfolding evs_def by (simp add: run del: process_input_loop.simps)
  have 5: "process_input ext cm statics_init (Read (\<lambda>timed. WEOF) t # rest) =
       ([Prompt (''Press a key'' @ [CHR 0x0A, CHR 0x0A])], statics_init, Returned)"
    by (simp add: process_input_def statics_init_def)
  have e0: "elapsed_us (Double 217600000000 (- 7)) (Double 0 0) = 1700000000000000"
    by code_simp
  have x0: "elapsed_text 1700000000000000 False = ''              ''"
    by (simp add: elapsed_text_def)
  have e1: "elapsed_us (Double 217600000016 (- 7)) (Double 217600000000 (- 7)) = 125000" by code_simp
  have x1: "elapsed_text 125000 True = ''(125.000 ms)  ''" by code_simp
  have e2: "elapsed_us (Double 217600000024 (- 7)) (Double 217600000016 (- 7)) = 62500" by code_simp
  have x2: "elapsed_text 62500 True = ''( 62.500 ms)  ''" by code_simp
  have e3: "elapsed_us (Double 217600000088 (- 7)) (Double 217600000024 (- 7)) = 500000" by code_simp
  have x3: "elapsed_text 500000 True = CHR 0x0A # ''(500.000 ms)  ''" by code_simp
  have e4: "elapsed_us (Double 217600000092 (- 7)) (Double 217600000088 (- 7)) = 31250" by code_simp
  have x4: "elapsed_text 31250 True = ''( 31.250 ms)  ''" by code_simp
  have e5: "elapsed_us (Double 217600000348 (- 7)) (Double 217600000092 (- 7)) = 2000000" by code_simp
  have x5: "elapsed_text 2000000 True = CHR 0x0A # ''              ''" by code_simp
  have e6: "elapsed_us (Double 217600000380 (- 7)) (Double 217600000348 (- 7)) = 250000" by code_simp
  have x6: "elapsed_text 250000 True = CHR 0x0A # ''(250.000 ms)  ''" by code_simp
  have e7: "elapsed_us (Double 217600000382 (- 7)) (Double 217600000380 (- 7)) = 15625" by code_simp
  have x7: "elapsed_text 15625 True = ''( 15.625 ms)  ''" by code_simp
  have e8: "elapsed_us (Double 217600000383 (- 7)) (Double 217600000382 (- 7)) = 7812" by code_simp
  have x8: "elapsed_text 7812 True = ''(  7.812 ms)  ''" by code_simp
  have 6: "render (fst (process_input ext_example False statics_init
        (map (\<lambda>(c, t). Read (\<lambda>timed. of_char c) t)
           (zip ''helloexit'' [Double 217600000000 (- 7), Double 217600000016 (- 7), Double 217600000024 (- 7), Double 217600000088 (- 7), Double 217600000092 (- 7), Double 217600000348 (- 7), Double 217600000380 (- 7), Double 217600000382 (- 7), Double 217600000383 (- 7)])))) =
       concat (map (\<lambda>l. l @ [CHR 0x0A])
        [''Press a key'',
        '''',
        ''              dec: 104  oct: 150  hex: 68  char: h'',
        ''(125.000 ms)  dec: 101  oct: 145  hex: 65  char: e'',
        ''( 62.500 ms)  dec: 108  oct: 154  hex: 6C  char: l'',
        '''',
        ''(500.000 ms)  dec: 108  oct: 154  hex: 6C  char: l'',
        ''( 31.250 ms)  dec: 111  oct: 157  hex: 6F  char: o'',
        '''',
        ''              dec: 101  oct: 145  hex: 65  char: e'',
        '''',
        ''(250.000 ms)  dec: 120  oct: 170  hex: 78  char: x'',
        ''( 15.625 ms)  dec: 105  oct: 151  hex: 69  char: i'',
        ''(  7.812 ms)  dec: 116  oct: 164  hex: 74  char: t'',
        '''',
        ''Exiting at your request.''])"
    by (simp add: run render_def ext_example_def matcher_none elapsed_output
          e0 x0 e1 x1 e2 x2 e3 x3 e4 x4 e5 x5 e6 x6 e7 x7 e8 x8
          del: process_input_loop.simps)
  have 7: "render (fst (process_input ext_example False statics_init [Read (\<lambda>timed. WEOF) t])) =
       ''Press a key'' @ [CHR 0x0A, CHR 0x0A]"
    by (simp add: process_input_def statics_init_def render_def)
  show ?thesis using 1 2 3 4 5 6 7 by blast
qed

subsection \<open>The window before it is full\<close>

lemma key_name_window: "length w = 8 \<Longrightarrow> fst (key_name tbl w c) = tl w @ [c]"
  by (simp add: key_name_char Let_def)

lemma feed_Cons:
  "key_name_feed tbl w (c # cs) =
     (fst (key_name_feed tbl (fst (key_name tbl w c)) cs),
      snd (key_name tbl w c) # snd (key_name_feed tbl (fst (key_name tbl w c)) cs))"
  by (simp add: Let_def split: prod.splits)

lemma feed_window:
  "length w = 8 \<Longrightarrow> fst (key_name_feed tbl w bs) = drop (length bs) (w @ bs)"
proof (induction bs arbitrary: w)
  case Nil
  then show ?case by simp
next
  case (Cons c cs)
  from Cons.prems obtain x xs where w: "w = x # xs" "length xs = 7"
    by (cases w) auto
  have len: "length (tl w @ [c]) = 8" using w by simp
  have "fst (key_name_feed tbl w (c # cs)) = fst (key_name_feed tbl (tl w @ [c]) cs)"
    unfolding feed_Cons key_name_window [OF Cons.prems] by simp
  also have "\<dots> = drop (length cs) ((tl w @ [c]) @ cs)"
    by (rule Cons.IH [OF len])
  also have "\<dots> = drop (length (c # cs)) (w @ c # cs)"
    using w by simp
  finally show ?case .
qed

lemma feed_snoc:
  "key_name_feed tbl w (xs @ [c]) =
     (fst (key_name tbl (fst (key_name_feed tbl w xs)) c),
      snd (key_name_feed tbl w xs) @ [snd (key_name tbl (fst (key_name_feed tbl w xs)) c)])"
  by (induction xs arbitrary: w) (simp_all add: Let_def split: prod.splits)

lemma init_window:
  assumes "length bs \<le> 8"
  shows "fst (key_name_feed tbl key_chars_init bs) = replicate (8 - length bs) 0 @ bs"
proof -
  have k: "key_chars_init = replicate 8 0"
    by (simp add: key_chars_init_def numeral_eq_Suc)
  have "fst (key_name_feed tbl key_chars_init bs) = drop (length bs) (replicate 8 0 @ bs)"
    unfolding k by (rule feed_window) simp
  then show ?thesis using assms by simp
qed

lemma init_window_length: "length (fst (key_name_feed tbl key_chars_init bs)) = 8"
proof -
  have "length key_chars_init = 8" by (simp add: key_chars_init_def)
  from feed_window [OF this, of tbl bs] show ?thesis
    by (simp add: key_chars_init_def)
qed

lemma padded_suffix:
  assumes "length bs < k" "k \<le> 8"
  shows "drop (8 - k) (replicate (8 - length bs) (0 :: byte) @ bs) = replicate (k - length bs) 0 @ bs"
  using assms by simp

text \<open>
  Claim C10. The window starts as 8 zero bytes, so after fewer than 8 bytes it is zeros
  followed by the bytes fed. The call for the last byte asks for the suffixes of that
  padded window, of lengths 1 to 8 in order, up to the first match; when the table knows
  nothing, all 8 are asked for. Every suffix longer than the number of bytes fed starts
  with zero bytes. So a table that knows the sequence \<open>{0x00,0x41}\<close> matches it on the
  first byte \<open>0x41\<close> of a session, against a zero that was never typed.
\<close>

theorem early_session_window_padding:
  assumes "length bs < 8"
  shows "fst (key_name_feed tbl key_chars_init bs) = replicate (8 - length bs) 0 @ bs
       \<and> (bs \<noteq> [] \<longrightarrow>
            last (snd (key_name_feed tbl key_chars_init bs)) =
              (let cands = map (\<lambda>k. drop (8 - k) (replicate (8 - length bs) 0 @ bs)) [1..<9]
               in (takeWhile (\<lambda>s. tbl s = None) cands @
                     (case find (\<lambda>s. tbl s \<noteq> None) cands of None \<Rightarrow> [] | Some s \<Rightarrow> [s]),
                   case find (\<lambda>s. tbl s \<noteq> None) cands of None \<Rightarrow> None | Some s \<Rightarrow> tbl s)))
       \<and> (bs \<noteq> [] \<longrightarrow>
            fst (last (snd (key_name_feed Map.empty key_chars_init bs))) =
              map (\<lambda>k. drop (8 - k) (replicate (8 - length bs) 0 @ bs)) [1..<9])
       \<and> (\<forall>k. length bs < k \<and> k \<le> 8 \<longrightarrow>
            drop (8 - k) (replicate (8 - length bs) 0 @ bs) = replicate (k - length bs) 0 @ bs)
       \<and> key_name (Map.empty([0, 0x41] \<mapsto> ''X'')) key_chars_init 0x41 =
            ([0, 0, 0, 0, 0, 0, 0, 0x41], [[0x41], [0, 0x41]], Some ''X'')"
proof -
  have le: "length bs \<le> 8" using assms by simp
  note 1 = init_window [OF le]
  have 2: "last (snd (key_name_feed t key_chars_init bs)) =
              (let cands = map (\<lambda>k. drop (8 - k) (replicate (8 - length bs) 0 @ bs)) [1..<9]
               in (takeWhile (\<lambda>s. t s = None) cands @
                     (case find (\<lambda>s. t s \<noteq> None) cands of None \<Rightarrow> [] | Some s \<Rightarrow> [s]),
                   case find (\<lambda>s. t s \<noteq> None) cands of None \<Rightarrow> None | Some s \<Rightarrow> t s))"
    if ne: "bs \<noteq> []" for t
  proof -
    from ne obtain xs c where bs: "bs = xs @ [c]" by (cases bs rule: rev_cases) auto
    let ?w = "fst (key_name_feed t key_chars_init xs)"
    have lw: "length ?w = 8" by (rule init_window_length)
    have win: "tl ?w @ [c] = replicate (8 - length bs) 0 @ bs"
      using init_window [OF le, of t] key_name_window [OF lw, of t c]
      by (simp add: bs feed_snoc)
    have "last (snd (key_name_feed t key_chars_init bs)) = snd (key_name t ?w c)"
      by (simp add: bs feed_snoc)
    then show ?thesis
      unfolding key_name_char [OF lw] win by (simp add: Let_def)
  qed
  have 3: "fst (last (snd (key_name_feed Map.empty key_chars_init bs))) =
              map (\<lambda>k. drop (8 - k) (replicate (8 - length bs) 0 @ bs)) [1..<9]"
    if ne: "bs \<noteq> []"
  proof -
    have f: "find (\<lambda>s. (Map.empty :: name_table) s \<noteq> None) xs = None" for xs
      by (simp add: find_None_iff)
    have tw: "takeWhile (\<lambda>s. (Map.empty :: name_table) s = None) xs = xs" for xs
      by simp
    show ?thesis unfolding 2 [OF ne] Let_def f tw by simp
  qed
  have 5: "key_name (Map.empty([0, 0x41] \<mapsto> ''X'')) key_chars_init 0x41 =
            ([0, 0, 0, 0, 0, 0, 0, 0x41], [[0x41], [0, 0x41]], Some ''X'')"
    using key_name_char [of key_chars_init "Map.empty([0, 0x41] \<mapsto> ''X'')" "0x41"]
    by (simp add: key_chars_init_def cands_explicit Let_def)
  show ?thesis using 1 2 [of tbl] 3 padded_suffix [of bs] 5 by blast
qed

theorem early_session_window_padding_witness:
  "length [0x41 :: byte] < 8
   \<and> fst (key_name_feed Map.empty key_chars_init [0x41]) = [0, 0, 0, 0, 0, 0, 0, 0x41]
   \<and> fst (last (snd (key_name_feed Map.empty key_chars_init [0x41]))) =
       [[0x41], [0, 0x41], [0, 0, 0x41], [0, 0, 0, 0x41], [0, 0, 0, 0, 0x41],
        [0, 0, 0, 0, 0, 0x41], [0, 0, 0, 0, 0, 0, 0x41], [0, 0, 0, 0, 0, 0, 0, 0x41]]"
proof -
  have h: "length [0x41 :: byte] < 8" by simp
  note t = early_session_window_padding [OF h, of Map.empty]
  have c: "map (\<lambda>k. drop (8 - k) (replicate (8 - length [0x41 :: byte]) 0 @ [0x41])) [1..<9] =
       [[0x41], [0, 0x41], [0, 0, 0x41], [0, 0, 0, 0x41], [0, 0, 0, 0, 0x41],
        [0, 0, 0, 0, 0, 0x41], [0, 0, 0, 0, 0, 0, 0x41], [0, 0, 0, 0, 0, 0, 0, 0x41 :: byte]]"
    by (simp add: upt_rec numeral_eq_Suc)
  have 1: "fst (key_name_feed Map.empty key_chars_init [0x41]) = [0, 0, 0, 0, 0, 0, 0, 0x41]"
    using t [THEN conjunct1] by (simp add: numeral_eq_Suc)
  have 2: "fst (last (snd (key_name_feed Map.empty key_chars_init [0x41]))) =
      map (\<lambda>k. drop (8 - k) (replicate (8 - length [0x41 :: byte]) 0 @ [0x41])) [1..<9]"
    using t [THEN conjunct2, THEN conjunct2, THEN conjunct1] by blast
  show ?thesis using h 1 2 unfolding c by simp
qed

end
